theory Spec2Isabelle
  imports Complex_Main "HOL-Library.Multiset"
begin

section \<open>Tetris game core: data model\<close>

text \<open>
  The embedding follows \<^verbatim>\<open>src/projects/tetris-game/game.js\<close> (class \<^verbatim>\<open>Game\<close>) and the
  piece catalogue with its kick tables (\<^verbatim>\<open>TETROMINOS\<close>, \<^verbatim>\<open>KICKS_JLTSZ\<close>, \<^verbatim>\<open>KICKS_I\<close>,
  \<^verbatim>\<open>getKickData\<close>). Canvas drawing, the DOM, local storage and audio are left out: they
  read the game state and never write the fields modelled here.
\<close>

definition COLS :: nat where "COLS = 10"
definition ROWS :: nat where "ROWS = 20"

datatype game_state = MENU | PLAYING | PAUSED | GAMEOVER

text \<open>
  A grid cell is the number \<^verbatim>\<open>0\<close> or the colour string of a locked piece. \<open>Hole\<close> stands
  for an array slot that an assignment past the end of a row would leave unset; JavaScript
  reads such a slot as \<^verbatim>\<open>undefined\<close>, which is \<^verbatim>\<open>!== 0\<close>.
\<close>

datatype cell = Empty | Filled string | Hole

type_synonym grid = "cell list list"
type_synonym matrix = "nat list list"

datatype kind = PieceI | PieceL | PieceJ | PieceO | PieceT | PieceS | PieceZ

record tetromino =
  shape :: matrix
  color :: string

text \<open>The catalogue \<^verbatim>\<open>TETROMINOS\<close>; the fields \<^verbatim>\<open>border\<close> and \<^verbatim>\<open>size\<close> are only drawn.\<close>

fun TETROMINOS :: "kind \<Rightarrow> tetromino" where
  "TETROMINOS PieceI = \<lparr>shape = [[0,0,0,0],[1,1,1,1],[0,0,0,0],[0,0,0,0]], color = ''#00f0f0''\<rparr>"
| "TETROMINOS PieceJ = \<lparr>shape = [[1,0,0],[1,1,1],[0,0,0]], color = ''#0000f0''\<rparr>"
| "TETROMINOS PieceL = \<lparr>shape = [[0,0,1],[1,1,1],[0,0,0]], color = ''#f0a000''\<rparr>"
| "TETROMINOS PieceO = \<lparr>shape = [[1,1],[1,1]], color = ''#f0f000''\<rparr>"
| "TETROMINOS PieceS = \<lparr>shape = [[0,1,1],[1,1,0],[0,0,0]], color = ''#00f000''\<rparr>"
| "TETROMINOS PieceT = \<lparr>shape = [[0,1,0],[1,1,1],[0,0,0]], color = ''#a000f0''\<rparr>"
| "TETROMINOS PieceZ = \<lparr>shape = [[1,1,0],[0,1,1],[0,0,0]], color = ''#f00000''\<rparr>"

text \<open>JavaScript's \<^verbatim>\<open>%\<close> truncates towards zero: the result has the sign of the dividend.\<close>

definition js_rem :: "int \<Rightarrow> int \<Rightarrow> int" where
  "js_rem a b = sgn a * (\<bar>a\<bar> mod \<bar>b\<bar>)"

definition KICKS_JLTSZ :: "((int \<times> int) \<times> (int \<times> int) list) list" where
  "KICKS_JLTSZ =
    [((0,1), [(0,0), (-1,0), (-1,-1), (0,2), (-1,2)]),
     ((1,0), [(0,0), (1,0), (1,1), (0,-2), (1,-2)]),
     ((1,2), [(0,0), (1,0), (1,1), (0,-2), (1,-2)]),
     ((2,1), [(0,0), (-1,0), (-1,-1), (0,2), (-1,2)]),
     ((2,3), [(0,0), (1,0), (1,1), (0,-2), (1,-2)]),
     ((3,2), [(0,0), (-1,0), (-1,-1), (0,2), (-1,2)]),
     ((3,0), [(0,0), (-1,0), (-1,-1), (0,2), (-1,2)]),
     ((0,3), [(0,0), (1,0), (1,1), (0,-2), (1,-2)])]"

definition KICKS_I :: "((int \<times> int) \<times> (int \<times> int) list) list" where
  "KICKS_I =
    [((0,1), [(0,0), (-2,0), (1,0), (-2,1), (1,-2)]),
     ((1,0), [(0,0), (2,0), (-1,0), (2,-1), (-1,2)]),
     ((1,2), [(0,0), (-1,0), (2,0), (-1,2), (2,-1)]),
     ((2,1), [(0,0), (1,0), (-2,0), (1,-2), (-2,1)]),
     ((2,3), [(0,0), (2,0), (-1,0), (2,1), (-1,-2)]),
     ((3,2), [(0,0), (-2,0), (1,0), (-2,-1), (1,2)]),
     ((3,0), [(0,0), (1,0), (-2,0), (1,-2), (-2,1)]),
     ((0,3), [(0,0), (-1,0), (2,0), (-1,2), (2,-1)])]"

text \<open>
  \<^verbatim>\<open>getKickData(type, rotationIndex, direction)\<close>: the table is keyed by the pair
  (current state, next state); a key that is not in the table gives \<^verbatim>\<open>[[0, 0]]\<close>.
\<close>

definition getKickData :: "kind \<Rightarrow> int \<Rightarrow> int \<Rightarrow> (int \<times> int) list" where
  "getKickData type rotationIndex direction =
    (let nextState = js_rem (rotationIndex + direction + 4) 4;
         key = (rotationIndex, nextState)
     in if type = PieceO then [(0,0)]
        else if type = PieceI then (case map_of KICKS_I key of Some ks \<Rightarrow> ks | None \<Rightarrow> [(0,0)])
        else (case map_of KICKS_JLTSZ key of Some ks \<Rightarrow> ks | None \<Rightarrow> [(0,0)]))"

record piece_state =
  pos_x :: int
  pos_y :: int
  matrix :: matrix
  tetromino :: kind
  rotationIndex :: int

text \<open>
  The fields of \<^verbatim>\<open>Game\<close>. \<open>rnd\<close> is the supply of values that the coming calls of
  \<^verbatim>\<open>Math.random()\<close> return, each one in \<open>[0, 1)\<close>. Times are in milliseconds. The bag,
  the lookahead and the hold slot hold references to catalogue entries, modelled by
  their \<open>kind\<close>; \<^verbatim>\<open>null\<close> is \<open>None\<close>. The record describes the game from \<^verbatim>\<open>start()\<close> on,
  when \<^verbatim>\<open>player.matrix\<close> and \<^verbatim>\<open>player.tetromino\<close> are set.
\<close>

record game =
  grid :: grid
  score :: int
  level :: int
  lines :: int
  highScore :: int
  state :: game_state
  dropCounter :: real
  dropInterval :: real
  lastTime :: real
  lockTimer :: real
  isLocking :: bool
  lockMoves :: nat
  player :: piece_state
  bag :: "kind list"
  nextPiece :: "kind option"
  holdPiece :: "kind option"
  canHold :: bool
  clearingLines :: "nat list"
  clearAnimationFrame :: nat
  isAnimatingClear :: bool
  rnd :: "nat \<Rightarrow> real"

text \<open>\<^verbatim>\<open>this.lockDelay\<close> and \<^verbatim>\<open>this.maxLockMoves\<close> are set once, in the constructor.\<close>

definition lockDelay :: real where "lockDelay = 500"
definition maxLockMoves :: nat where "maxLockMoves = 15"

datatype error = TypeError

text \<open>An operation that throws leaves the game as it was at the throw: \<open>Inl (e, s)\<close>.\<close>

type_synonym 'a result = "(error \<times> 'a) + 'a"

section \<open>Grid and collision\<close>

definition createGrid :: grid where
  "createGrid = replicate ROWS (replicate COLS Empty)"

text \<open>
  The test of one cell in \<^verbatim>\<open>collide\<close>: \<^verbatim>\<open>arena[r] === undefined\<close>, or
  \<^verbatim>\<open>arena[r][c] === undefined\<close>, or \<^verbatim>\<open>arena[r][c] !== 0\<close>. An array read at a negative
  index or past the end gives \<^verbatim>\<open>undefined\<close>.
\<close>

definition blocked :: "grid \<Rightarrow> int \<Rightarrow> int \<Rightarrow> bool" where
  "blocked arena r c =
    (r < 0 \<or> int (length arena) \<le> r
     \<or> c < 0 \<or> int (length (arena ! nat r)) \<le> c
     \<or> arena ! nat r ! nat c \<noteq> Empty)"

definition collide :: "grid \<Rightarrow> matrix \<Rightarrow> int \<Rightarrow> int \<Rightarrow> bool" where
  "collide arena m ox oy =
    list_ex (\<lambda>y. list_ex (\<lambda>x. m ! y ! x \<noteq> 0 \<and> blocked arena (int y + oy) (int x + ox))
                   [0..<length (m ! y)])
            [0..<length m]"

abbreviation collides :: "game \<Rightarrow> bool" where
  "collides s \<equiv> collide (grid s) (matrix (player s)) (pos_x (player s)) (pos_y (player s))"

text \<open>
  \<^verbatim>\<open>row[c] = v\<close>: inside the row it replaces the cell; past the end the array grows, the
  slots in between staying unset; at a negative index it sets a property and the array
  elements stay as they are.
\<close>

definition assign_cell :: "cell list \<Rightarrow> int \<Rightarrow> cell \<Rightarrow> cell list" where
  "assign_cell row c v =
    (if c < 0 then row
     else if nat c < length row then row[nat c := v]
     else row @ replicate (nat c - length row) Hole @ [v])"

text \<open>
  \<^verbatim>\<open>merge\<close>: the two nested \<^verbatim>\<open>forEach\<close> calls. \<^verbatim>\<open>arena[r][c] = color\<close> throws a TypeError when
  \<^verbatim>\<open>arena[r]\<close> is \<^verbatim>\<open>undefined\<close>; the cells written before stay written.
\<close>

fun merge_row :: "grid \<Rightarrow> int \<Rightarrow> int \<Rightarrow> cell \<Rightarrow> nat list \<Rightarrow> grid result" where
  "merge_row arena r c v [] = Inr arena"
| "merge_row arena r c v (val # rest) =
    (if val \<noteq> 0 then
       (if r < 0 \<or> int (length arena) \<le> r then Inl (TypeError, arena)
        else merge_row (arena[nat r := assign_cell (arena ! nat r) c v]) r (c + 1) v rest)
     else merge_row arena r (c + 1) v rest)"

fun merge_rows :: "grid \<Rightarrow> int \<Rightarrow> int \<Rightarrow> cell \<Rightarrow> matrix \<Rightarrow> grid result" where
  "merge_rows arena px r v [] = Inr arena"
| "merge_rows arena px r v (row # rows) =
    (case merge_row arena r px v row of
       Inl e \<Rightarrow> Inl e
     | Inr arena' \<Rightarrow> merge_rows arena' px (r + 1) v rows)"

definition merge :: "grid \<Rightarrow> piece_state \<Rightarrow> grid result" where
  "merge arena p =
    merge_rows arena (pos_x p) (pos_y p) (Filled (color (TETROMINOS (tetromino p)))) (matrix p)"

section \<open>The 7-bag randomizer\<close>

definition swap :: "'a list \<Rightarrow> nat \<Rightarrow> nat \<Rightarrow> 'a list" where
  "swap xs i j = xs[i := xs ! j, j := xs ! i]"

text \<open>
  The Fisher-Yates loop of \<^verbatim>\<open>fillBag\<close>, from \<open>i\<close> down to 1:
  \<^verbatim>\<open>j = Math.floor(Math.random() * (i + 1)); [pieces[i], pieces[j]] = [pieces[j], pieces[i]]\<close>.
\<close>

fun shuffle :: "nat \<Rightarrow> 'a list \<Rightarrow> (nat \<Rightarrow> real) \<Rightarrow> 'a list \<times> (nat \<Rightarrow> real)" where
  "shuffle 0 pieces r = (pieces, r)"
| "shuffle (Suc i) pieces r =
    (let j = nat \<lfloor>r 0 * real (Suc i + 1)\<rfloor>
     in shuffle i (swap pieces (Suc i) j) (\<lambda>n. r (Suc n)))"

definition all_pieces :: "kind list" where
  "all_pieces = [PieceI, PieceL, PieceJ, PieceO, PieceT, PieceS, PieceZ]"

definition fillBag :: "game \<Rightarrow> game" where
  "fillBag s =
    (let (pieces, r) = shuffle (length all_pieces - 1) all_pieces (rnd s)
     in s\<lparr>bag := pieces, rnd := r\<rparr>)"

text \<open>\<^verbatim>\<open>getNextFromBag\<close>: \<^verbatim>\<open>bag.pop()\<close> takes the last element.\<close>

definition getNextFromBag :: "game \<Rightarrow> kind \<times> game" where
  "getNextFromBag s =
    (let s1 = (if bag s = [] then fillBag s else s)
     in (last (bag s1), s1\<lparr>bag := butlast (bag s1)\<rparr>))"

fun draws :: "nat \<Rightarrow> game \<Rightarrow> kind list \<times> game" where
  "draws 0 s = ([], s)"
| "draws (Suc n) s =
    (let (k, s1) = getNextFromBag s; (ks, s2) = draws n s1 in (k # ks, s2))"

section \<open>Level speed\<close>

definition getDropInterval :: "int \<Rightarrow> real" where
  "getDropInterval lvl =
    (let frames =
       (case map_of [(0::int, 48::real), (1, 48), (2, 43), (3, 38), (4, 33), (5, 28),
                     (6, 23), (7, 18), (8, 13), (9, 8), (10, 6), (11, 5),
                     (12, 5), (13, 5), (14, 4), (15, 4), (16, 4), (17, 3),
                     (18, 3), (19, 3)] lvl of
          Some f \<Rightarrow> f
        | None \<Rightarrow> (if lvl > 19 then 2 else 4))
     in (frames / 60) * 1000)"

section \<open>Player actions\<close>

definition gameOver :: "game \<Rightarrow> game" where
  "gameOver s =
    (let s1 = s\<lparr>state := GAMEOVER\<rparr>
     in if score s1 > highScore s1 then s1\<lparr>highScore := score s1\<rparr> else s1)"

definition spawn_piece :: "kind \<Rightarrow> piece_state" where
  "spawn_piece k =
    (let m = shape (TETROMINOS k)
     in \<lparr>pos_x = int (COLS div 2) - int (length (m ! 0) div 2), pos_y = 0,
         matrix = m, tetromino = k, rotationIndex = 0\<rparr>)"

definition playerReset :: "game \<Rightarrow> game" where
  "playerReset s =
    (let (k, s1) = (case nextPiece s of Some k \<Rightarrow> (k, s) | None \<Rightarrow> getNextFromBag s);
         s2 = s1\<lparr>player := spawn_piece k\<rparr>;
         (n, s3) = getNextFromBag s2;
         s4 = s3\<lparr>nextPiece := Some n, isLocking := False, lockTimer := 0, lockMoves := 0\<rparr>
     in if collides s4 then gameOver s4 else s4)"

definition playerDrop :: "game \<Rightarrow> game" where
  "playerDrop s =
    (let p = player s;
         s1 = s\<lparr>player := p\<lparr>pos_y := pos_y p + 1\<rparr>\<rparr>;
         s2 = (if collides s1 then
                 (let s' = s1\<lparr>player := p\<rparr>
                  in if \<not> isLocking s' then s'\<lparr>isLocking := True, lockTimer := 0\<rparr> else s')
               else s1\<lparr>isLocking := False, lockTimer := 0\<rparr>)
     in s2\<lparr>dropCounter := 0\<rparr>)"

definition manualDrop :: "game \<Rightarrow> game" where
  "manualDrop s =
    (let p = player s;
         s1 = s\<lparr>player := p\<lparr>pos_y := pos_y p + 1\<rparr>\<rparr>;
         s2 = (if collides s1 then
                 (let s' = s1\<lparr>player := p\<rparr>
                  in if \<not> isLocking s' then s'\<lparr>isLocking := True, lockTimer := 0\<rparr> else s')
               else s1\<lparr>score := score s1 + 1, isLocking := False, lockTimer := 0\<rparr>)
     in s2\<lparr>dropCounter := 0\<rparr>)"

definition playerMove :: "int \<Rightarrow> game \<Rightarrow> game" where
  "playerMove dir s =
    (let p = player s;
         s1 = s\<lparr>player := p\<lparr>pos_x := pos_x p + dir\<rparr>\<rparr>
     in if collides s1 then s1\<lparr>player := p\<rparr>
        else if isLocking s1 \<and> lockMoves s1 < maxLockMoves
             then s1\<lparr>lockTimer := 0, lockMoves := lockMoves s1 + 1\<rparr>
             else s1)"

text \<open>
  The transposition loop of \<^verbatim>\<open>rotate\<close>: for \<open>y\<close> from 0 and \<open>x < y\<close>,
  \<^verbatim>\<open>[matrix[x][y], matrix[y][x]] = [matrix[y][x], matrix[x][y]]\<close>. Piece matrices are
  square, so every index of the loop is inside the matrix.
\<close>

definition swap_cells :: "matrix \<Rightarrow> nat \<Rightarrow> nat \<Rightarrow> matrix" where
  "swap_cells m x y =
    (let a = m ! x ! y; b = m ! y ! x;
         m1 = m[x := (m ! x)[y := b]]
     in m1[y := (m1 ! y)[x := a]])"

definition transpose_in_place :: "matrix \<Rightarrow> matrix" where
  "transpose_in_place m =
    fold (\<lambda>y m'. fold (\<lambda>x m''. swap_cells m'' x y) [0..<y] m') [0..<length m] m"

definition rotate_matrix :: "matrix \<Rightarrow> int \<Rightarrow> matrix" where
  "rotate_matrix m dir =
    (let t = transpose_in_place m in if dir > 0 then map rev t else rev t)"

text \<open>
  The kick loop of \<^verbatim>\<open>playerRotate\<close>: the first candidate that does not collide is taken
  (\<^verbatim>\<open>pos.x += offsetX; pos.y -= offsetY\<close>); a colliding one restores the position.
\<close>

fun try_kicks :: "grid \<Rightarrow> matrix \<Rightarrow> int \<Rightarrow> int \<Rightarrow> (int \<times> int) list \<Rightarrow> (int \<times> int) option" where
  "try_kicks arena m x y [] = None"
| "try_kicks arena m x y ((offsetX, offsetY) # ks) =
    (if \<not> collide arena m (x + offsetX) (y - offsetY) then Some (x + offsetX, y - offsetY)
     else try_kicks arena m x y ks)"

definition playerRotate :: "int \<Rightarrow> game \<Rightarrow> game" where
  "playerRotate dir s =
    (let p = player s;
         currentRotation = rotationIndex p;
         m' = rotate_matrix (matrix p) dir;
         kicks = getKickData (tetromino p) currentRotation dir
     in case try_kicks (grid s) m' (pos_x p) (pos_y p) kicks of
          Some (x', y') \<Rightarrow>
            (let s1 = s\<lparr>player := p\<lparr>pos_x := x', pos_y := y', matrix := m',
                                     rotationIndex := js_rem (currentRotation + dir + 4) 4\<rparr>\<rparr>
             in if isLocking s1 \<and> lockMoves s1 < maxLockMoves
                then s1\<lparr>lockTimer := 0, lockMoves := lockMoves s1 + 1\<rparr>
                else s1)
        | None \<Rightarrow> s\<lparr>player := p\<lparr>matrix := rotate_matrix m' (- dir)\<rparr>\<rparr>)"

definition holdTetromino :: "game \<Rightarrow> game" where
  "holdTetromino s =
    (if \<not> canHold s \<or> state s \<noteq> PLAYING then s
     else
       (let s1 = (case holdPiece s of
                    None \<Rightarrow> playerReset (s\<lparr>holdPiece := Some (tetromino (player s))\<rparr>)
                  | Some h \<Rightarrow> s\<lparr>holdPiece := Some (tetromino (player s)),
                                player := spawn_piece h\<rparr>)
        in s1\<lparr>canHold := False\<rparr>))"

definition togglePause :: "game \<Rightarrow> game" where
  "togglePause s =
    (if state s = PLAYING then s\<lparr>state := PAUSED\<rparr>
     else if state s = PAUSED then s\<lparr>state := PLAYING\<rparr>
     else s)"

section \<open>Line clearing\<close>

definition arenaSweep :: "game \<Rightarrow> game" where
  "arenaSweep s =
    (let ls = filter (\<lambda>y. list_all (\<lambda>c. c \<noteq> Empty) (grid s ! y)) (rev [0..<length (grid s)]);
         s1 = s\<lparr>clearingLines := ls\<rparr>
     in if length ls > 0 then s1\<lparr>isAnimatingClear := True, clearAnimationFrame := 0\<rparr> else s1)"

text \<open>One round of the loop of \<^verbatim>\<open>completeClear\<close>: \<^verbatim>\<open>grid.splice(y, 1)\<close>, then \<^verbatim>\<open>grid.unshift\<close> of an empty row.\<close>

definition clear_row :: "grid \<Rightarrow> nat \<Rightarrow> grid" where
  "clear_row g y = replicate COLS Empty # (take y g @ drop (Suc y) g)"

definition lineScores :: "(nat \<times> int) list" where
  "lineScores = [(1, 100), (2, 300), (3, 500), (4, 800)]"

definition completeClear :: "game \<Rightarrow> game" where
  "completeClear s =
    (let rowCount = length (clearingLines s);
         sorted = rev (sort (clearingLines s));
         s1 = s\<lparr>clearingLines := sorted, grid := foldl clear_row (grid s) sorted,
                lines := lines s + int rowCount\<rparr>;
         s2 = s1\<lparr>score := score s1
                    + (case map_of lineScores rowCount of Some v \<Rightarrow> v | None \<Rightarrow> 100) * level s1\<rparr>;
         newLevel = lines s2 div 10 + 1;
         s3 = (if newLevel > level s2
               then s2\<lparr>level := newLevel, dropInterval := getDropInterval newLevel\<rparr>
               else s2)
     in s3\<lparr>clearingLines := [], isAnimatingClear := False\<rparr>)"

section \<open>Locking, hard drop and the game loop\<close>

definition lockPiece :: "game \<Rightarrow> game result" where
  "lockPiece s =
    (case merge (grid s) (player s) of
       Inl (e, g) \<Rightarrow> Inl (e, s\<lparr>grid := g\<rparr>)
     | Inr g \<Rightarrow> Inr (playerReset ((arenaSweep (s\<lparr>grid := g\<rparr>))\<lparr>canHold := True\<rparr>)))"

text \<open>
  The loop of \<^verbatim>\<open>playerHardDrop\<close>: \<^verbatim>\<open>while (!collide) { pos.y++; dropped++ }\<close>. It returns
  the row at which the piece first collides and the number of rounds; it does not return
  (\<open>None\<close>) when no row collides.
\<close>

partial_function (option) drop_loop :: "grid \<Rightarrow> matrix \<Rightarrow> int \<Rightarrow> int \<Rightarrow> int \<Rightarrow> (int \<times> int) option" where
  [code]: "drop_loop arena m x y dropped =
    (if \<not> collide arena m x y then drop_loop arena m x (y + 1) (dropped + 1)
     else Some (y, dropped))"

definition playerHardDrop :: "game \<Rightarrow> game result option" where
  "playerHardDrop s =
    (let p = player s
     in case drop_loop (grid s) (matrix p) (pos_x p) (pos_y p) 0 of
          None \<Rightarrow> None
        | Some (y, dropped) \<Rightarrow>
            Some (lockPiece (s\<lparr>player := p\<lparr>pos_y := y - 1\<rparr>,
                               score := score s + max 0 (dropped - 1) * 2\<rparr>)))"

definition update :: "real \<Rightarrow> game \<Rightarrow> game result" where
  "update time s =
    (let deltaTime = time - lastTime s;
         s0 = s\<lparr>lastTime := time\<rparr>
     in if state s0 = PLAYING then
          (if isAnimatingClear s0 then
             (let s1 = s0\<lparr>clearAnimationFrame := clearAnimationFrame s0 + 1\<rparr>
              in Inr (if clearAnimationFrame s1 \<ge> 18 then completeClear s1 else s1))
           else
             (let s1 = s0\<lparr>dropCounter := dropCounter s0 + deltaTime\<rparr>;
                  s2 = (if dropCounter s1 > dropInterval s1 then playerDrop s1 else s1)
              in if isLocking s2 then
                   (let s3 = s2\<lparr>lockTimer := lockTimer s2 + deltaTime\<rparr>
                    in if lockTimer s3 \<ge> lockDelay then lockPiece s3 else Inr s3)
                 else Inr s2))
        else Inr s0)"

section \<open>Starting and resetting\<close>

definition start :: "int \<Rightarrow> game \<Rightarrow> game" where
  "start startLevel s =
    (let s1 = s\<lparr>grid := createGrid, score := 0, lines := 0, level := startLevel,
                dropInterval := getDropInterval startLevel, bag := [], holdPiece := None,
                canHold := True, isAnimatingClear := False, clearingLines := []\<rparr>;
         s2 = fillBag s1;
         (k, s3) = getNextFromBag s2;
         s4 = playerReset (s3\<lparr>nextPiece := Some k\<rparr>)
     in s4\<lparr>state := PLAYING\<rparr>)"

definition reset :: "game \<Rightarrow> game" where
  "reset s =
    s\<lparr>grid := createGrid, score := 0, lines := 0, level := 1, holdPiece := None, bag := [],
      isAnimatingClear := False, clearingLines := []\<rparr>"

section \<open>Auxiliary notions and example states\<close>

text \<open>A grid of the dimensions that \<^verbatim>\<open>createGrid\<close> makes: \<open>ROWS\<close> rows of \<open>COLS\<close> cells.\<close>

definition grid_ok :: "grid \<Rightarrow> bool" where
  "grid_ok g = (length g = ROWS \<and> list_all (\<lambda>row. length row = COLS) g)"

text \<open>
  The collision test in the words of the specification: an occupied cell collides when it
  is outside \<open>[0, COLS)\<close>, or at a row \<open>\<ge> ROWS\<close>, or over an occupied grid cell; above
  row 0 there are no grid cells, so nothing collides there.
\<close>

definition spec_collides :: "grid \<Rightarrow> matrix \<Rightarrow> int \<Rightarrow> int \<Rightarrow> bool" where
  "spec_collides arena m ox oy =
    list_ex (\<lambda>y. list_ex (\<lambda>x. m ! y ! x \<noteq> 0 \<and>
                (int x + ox < 0 \<or> int COLS \<le> int x + ox \<or> int ROWS \<le> int y + oy
                 \<or> (0 \<le> int y + oy \<and> arena ! nat (int y + oy) ! nat (int x + ox) \<noteq> Empty)))
                   [0..<length (m ! y)])
            [0..<length m]"

text \<open>
  The line clear in the words of the specification: the listed rows are removed, as many
  empty rows are put on top, and the other rows keep their order.
\<close>

definition spec_clearRows :: "grid \<Rightarrow> nat list \<Rightarrow> grid" where
  "spec_clearRows g rowIndices =
    replicate (length rowIndices) (replicate COLS Empty) @
    map (\<lambda>y. g ! y) (filter (\<lambda>y. y \<notin> set rowIndices) [0..<length g])"

text \<open>A game in play on an empty board, used to build concrete states.\<close>

definition example_game :: game where
  "example_game =
    \<lparr>grid = createGrid, score = 0, level = 1, lines = 0, highScore = 0, state = PLAYING,
     dropCounter = 0, dropInterval = getDropInterval 1, lastTime = 0, lockTimer = 0,
     isLocking = False, lockMoves = 0, player = spawn_piece PieceT,
     bag = [PieceI, PieceL, PieceJ], nextPiece = Some PieceO, holdPiece = None,
     canHold = True, clearingLines = [], clearAnimationFrame = 0, isAnimatingClear = False,
     rnd = (\<lambda>n. 0)\<rparr>"

definition marked_row :: "nat \<Rightarrow> cell list" where
  "marked_row c = (replicate COLS Empty)[c := Filled ''#00f000'']"

text \<open>
  A board on which one lock completes rows 14 and 17: both are filled but for column 9,
  rows 13, 15, 16, 18 and 19 hold one block each, and the I piece stands upright in
  column 9 over rows 14 to 17. \<open>two_lines_grid\<close> is the board with the piece merged.
\<close>

definition gap_row :: "cell list" where
  "gap_row = replicate 9 (Filled ''#f00000'') @ [Empty]"

definition closed_row :: "cell list" where
  "closed_row = replicate 9 (Filled ''#f00000'') @ [Filled ''#00f0f0'']"

definition side_row :: "nat \<Rightarrow> cell \<Rightarrow> cell list" where
  "side_row c v = (replicate COLS Empty)[c := Filled ''#00f000'', 9 := v]"

definition before_lock_grid :: grid where
  "before_lock_grid =
    replicate 13 (replicate COLS Empty) @
    [side_row 0 Empty, gap_row, side_row 1 Empty, side_row 2 Empty, gap_row,
     side_row 3 Empty, side_row 4 Empty]"

definition lock_game :: game where
  "lock_game =
    example_game\<lparr>grid := before_lock_grid,
      player := \<lparr>pos_x = 7, pos_y = 14,
                  matrix = [[0, 0, 1, 0], [0, 0, 1, 0], [0, 0, 1, 0], [0, 0, 1, 0]],
                  tetromino = PieceI, rotationIndex = 1\<rparr>\<rparr>"

definition two_lines_grid :: grid where
  "two_lines_grid =
    replicate 13 (replicate COLS Empty) @
    [side_row 0 Empty, closed_row, side_row 1 (Filled ''#00f0f0''),
     side_row 2 (Filled ''#00f0f0''), closed_row, side_row 3 Empty, side_row 4 Empty]"

text \<open>Piece matrices are square: as many cells in each row as there are rows.\<close>

definition square :: "matrix \<Rightarrow> bool" where
  "square m = list_all (\<lambda>row. length row = length m) m"

text \<open>
  The kick that \<^verbatim>\<open>playerRotate\<close> takes in a state: the first candidate position that does
  not collide, or \<open>None\<close> when every candidate collides.
\<close>

definition kick_found :: "int \<Rightarrow> game \<Rightarrow> (int \<times> int) option" where
  "kick_found dir s =
    (let p = player s
     in try_kicks (grid s) (rotate_matrix (matrix p) dir) (pos_x p) (pos_y p)
          (getKickData (tetromino p) (rotationIndex p) dir))"

text \<open>The transposition loop after \<open>k\<close> rounds: the inner one for row \<open>y\<close>, and the outer one.\<close>

definition inner_loop :: "matrix \<Rightarrow> nat \<Rightarrow> nat \<Rightarrow> matrix" where
  "inner_loop m y k = fold (\<lambda>x m''. swap_cells m'' x y) [0..<k] m"

definition outer_loop :: "matrix \<Rightarrow> nat \<Rightarrow> matrix" where
  "outer_loop m k = fold (\<lambda>y m'. fold (\<lambda>x m''. swap_cells m'' x y) [0..<y] m') [0..<k] m"

text \<open>
  The I piece lying in a tunnel one row high under four filled rows: no rotation fits.
\<close>

definition tunnel_grid :: grid where
  "tunnel_grid =
    replicate 15 (replicate COLS Empty) @
    replicate 4 (replicate 9 (Filled ''#f00000'') @ [Empty]) @
    [replicate 4 Empty @ replicate 5 (Filled ''#f00000'') @ [Empty]]"

definition tunnel_game :: game where
  "tunnel_game =
    example_game\<lparr>grid := tunnel_grid, player := (spawn_piece PieceI)\<lparr>pos_x := 0, pos_y := 18\<rparr>\<rparr>"

text \<open>
  The I piece lying at row 17 over a slot in column 5, with blocks at (16, 4), (18, 4),
  (18, 6) and (19, 6): it can turn upright into the slot and cannot turn further.
\<close>

definition notch_grid :: grid where
  "notch_grid =
    replicate 16 (replicate COLS Empty) @
    [marked_row 4, replicate COLS Empty, (marked_row 4)[6 := Filled ''#00f000''], marked_row 6]"

definition notch_game :: game where
  "notch_game =
    example_game\<lparr>grid := notch_grid, player := (spawn_piece PieceI)\<lparr>pos_x := 3, pos_y := 16\<rparr>\<rparr>"

text \<open>The T piece in the open, five rows down the empty board.\<close>

definition open_game :: game where
  "open_game = example_game\<lparr>player := (spawn_piece PieceT)\<lparr>pos_y := 5\<rparr>\<rparr>"

text \<open>The T piece resting on the floor of the empty board, lock delay armed 200 ms ago.\<close>

definition resting_game :: game where
  "resting_game =
    example_game\<lparr>player := (spawn_piece PieceT)\<lparr>pos_y := 18\<rparr>, isLocking := True, lockTimer := 200\<rparr>"

text \<open>The same with the fifteen resets of the lock timer used up.\<close>

definition capped_game :: game where
  "capped_game = resting_game\<lparr>lockMoves := 15\<rparr>"

text \<open>
  The same with a gravity drop due within 100 ms, and the resting game with the I piece in
  the hold slot and three resets counted.
\<close>

definition due_game :: game where
  "due_game = capped_game\<lparr>dropCounter := 700\<rparr>"

definition swap_game :: game where
  "swap_game = resting_game\<lparr>holdPiece := Some PieceI, lockMoves := 3\<rparr>"

text \<open>Runs of horizontal moves and rotations, as the controls call them.\<close>

datatype input = Move int | Rotate int

fun apply_input :: "input \<Rightarrow> game \<Rightarrow> game" where
  "apply_input (Move dir) s = playerMove dir s"
| "apply_input (Rotate dir) s = playerRotate dir s"

definition apply_inputs :: "input list \<Rightarrow> game \<Rightarrow> game" where
  "apply_inputs ins s = fold apply_input ins s"

text \<open>
  A board whose column 4 is filled up to row 1, so that the T piece collides where it
  spawns, and the game that \<^verbatim>\<open>playerReset\<close> has ended there.
\<close>

definition blocked_spawn_grid :: grid where
  "blocked_spawn_grid = replicate COLS Empty # replicate 19 (marked_row 4)"

definition gameover_game :: game where
  "gameover_game = example_game\<lparr>grid := blocked_spawn_grid, state := GAMEOVER\<rparr>"

text \<open>A game in which hold was used for the current piece.\<close>

definition held_game :: game where
  "held_game = example_game\<lparr>holdPiece := Some PieceL, canHold := False\<rparr>"

text \<open>The collision tests of \<^verbatim>\<open>playerMove\<close> and of the two one-row drops.\<close>

abbreviation move_collides :: "int \<Rightarrow> game \<Rightarrow> bool" where
  "move_collides dir s \<equiv>
     collide (grid s) (matrix (player s)) (pos_x (player s) + dir) (pos_y (player s))"

abbreviation drop_collides :: "game \<Rightarrow> bool" where
  "drop_collides s \<equiv>
     collide (grid s) (matrix (player s)) (pos_x (player s)) (pos_y (player s) + 1)"

text \<open>What \<^verbatim>\<open>Math.random()\<close> promises: every value is in \<open>[0, 1)\<close>.\<close>

definition valid_random :: "(nat \<Rightarrow> real) \<Rightarrow> bool" where
  "valid_random r = (\<forall>n. 0 \<le> r n \<and> r n < 1)"

text \<open>A piece matrix has at least one occupied cell.\<close>

definition has_block :: "matrix \<Rightarrow> bool" where
  "has_block m = list_ex (\<lambda>row. list_ex (\<lambda>v. v \<noteq> 0) row) m"

text \<open>
  Every occupied cell of the piece lies in a column of the grid. \<^verbatim>\<open>merge\<close> writes only at
  occupied cells, so under this condition it never makes a row longer.
\<close>

definition row_cols_ok :: "nat list \<Rightarrow> int \<Rightarrow> bool" where
  "row_cols_ok row x =
    list_all (\<lambda>j. row ! j \<noteq> 0 \<longrightarrow> 0 \<le> x + int j \<and> x + int j < int COLS) [0..<length row]"

definition cols_ok :: "matrix \<Rightarrow> int \<Rightarrow> bool" where
  "cols_ok m x = list_all (\<lambda>row. row_cols_ok row x) m"

text \<open>What holds in every state of the game from \<^verbatim>\<open>start()\<close> on.\<close>

definition game_inv :: "game \<Rightarrow> bool" where
  "game_inv s =
    (grid_ok (grid s) \<and> square (matrix (player s)) \<and> has_block (matrix (player s))
     \<and> cols_ok (matrix (player s)) (pos_x (player s))
     \<and> list_all (\<lambda>y. y < ROWS) (clearingLines s))"

text \<open>
  One call from outside: the buttons of the start and game-over screens (\<^verbatim>\<open>start\<close>,
  \<^verbatim>\<open>reset\<close>), the input handlers, which call with direction 1 or \<open>-1\<close>, and the game loop
  (\<^verbatim>\<open>update\<close>, which does the gravity drop, the lock and the deferred line clear). A call
  that throws leaves the state of the throw.
\<close>

inductive step :: "game \<Rightarrow> game \<Rightarrow> bool" where
  step_start: "step s (start startLevel s)"
| step_reset: "step s (reset s)"
| step_move: "dir = 1 \<or> dir = - 1 \<Longrightarrow> step s (playerMove dir s)"
| step_rotate: "dir = 1 \<or> dir = - 1 \<Longrightarrow> step s (playerRotate dir s)"
| step_manualDrop: "step s (manualDrop s)"
| step_hardDrop: "playerHardDrop s = Some (Inr s') \<Longrightarrow> step s s'"
| step_hardDrop_throw: "playerHardDrop s = Some (Inl (e, s')) \<Longrightarrow> step s s'"
| step_hold: "step s (holdTetromino s)"
| step_pause: "step s (togglePause s)"
| step_update: "update time s = Inr s' \<Longrightarrow> step s s'"
| step_update_throw: "update time s = Inl (e, s') \<Longrightarrow> step s s'"

text \<open>The states reachable after \<^verbatim>\<open>start()\<close>.\<close>

inductive reachable :: "game \<Rightarrow> bool" where
  reachable_start: "reachable (start startLevel s)"
| reachable_step: "reachable s \<Longrightarrow> step s s' \<Longrightarrow> reachable s'"

section \<open>Verified properties\<close>

subsection \<open>Line clearing\<close>

text \<open>
  Claim C1. The deferred clear should remove exactly the full rows found by the sweep and
  put as many empty rows on top, the other rows keeping their order. Locking the upright
  I piece of \<open>lock_game\<close> completes rows 14 and 17; the sweep finds \<open>[17, 14]\<close>, and
  \<^verbatim>\<open>completeClear\<close> removes row 17 and then, the rows above having moved down by one, row
  13 instead of row 14: the full row 14 stays on the board and the block of row 13 is
  lost.
\<close>

theorem completeClear_two_lines:
  "\<not> collides lock_game
   \<and> (case lockPiece lock_game of
        Inr s1 \<Rightarrow>
          grid s1 = two_lines_grid \<and> clearingLines s1 = [17, 14] \<and> isAnimatingClear s1
          \<and> grid (completeClear s1) =
              replicate 15 (replicate COLS Empty) @
              [closed_row, side_row 1 (Filled ''#00f0f0''), side_row 2 (Filled ''#00f0f0''),
               side_row 3 Empty, side_row 4 Empty]
      | Inl e \<Rightarrow> False)
   \<and> spec_clearRows two_lines_grid [17, 14] =
       replicate 15 (replicate COLS Empty) @
       [side_row 0 Empty, side_row 1 (Filled ''#00f0f0''), side_row 2 (Filled ''#00f0f0''),
        side_row 3 Empty, side_row 4 Empty]"
  by code_simp

subsection \<open>Collision\<close>

lemma grid_ok_createGrid: "grid_ok createGrid"
  by (simp add: grid_ok_def createGrid_def list_all_iff)

lemma grid_ok_row: "grid_ok g \<Longrightarrow> 0 \<le> r \<Longrightarrow> r < int ROWS \<Longrightarrow> length (g ! nat r) = COLS"
  by (simp add: grid_ok_def list_all_length)

lemma blocked_grid_ok:
  assumes "grid_ok arena"
  shows "blocked arena r c =
    (r < 0 \<or> int ROWS \<le> r \<or> c < 0 \<or> int COLS \<le> c \<or> arena ! nat r ! nat c \<noteq> Empty)"
proof (cases "0 \<le> r \<and> r < int ROWS")
  case True
  with assms have "length (arena ! nat r) = COLS" by (simp add: grid_ok_row)
  moreover from assms have "length arena = ROWS" by (simp add: grid_ok_def)
  ultimately show ?thesis by (simp add: blocked_def)
next
  case False
  moreover from assms have "length arena = ROWS" by (simp add: grid_ok_def)
  ultimately show ?thesis by (auto simp: blocked_def)
qed

text \<open>
  Claim C2, as the code has it. On a grid of \<open>ROWS\<close> by \<open>COLS\<close> cells, \<^verbatim>\<open>collide\<close> is true
  exactly when some occupied cell of the matrix maps to a column outside \<open>[0, COLS)\<close>, to
  a row outside \<open>[0, ROWS)\<close> (below the floor or above row 0), or onto a grid cell that is
  not empty.
\<close>

theorem collide_iff:
  assumes "grid_ok arena"
  shows "collide arena m ox oy \<longleftrightarrow>
    (\<exists>y < length m. \<exists>x < length (m ! y). m ! y ! x \<noteq> 0 \<and>
       (int x + ox < 0 \<or> int COLS \<le> int x + ox
        \<or> int y + oy < 0 \<or> int ROWS \<le> int y + oy
        \<or> arena ! nat (int y + oy) ! nat (int x + ox) \<noteq> Empty))"
  unfolding collide_def list_ex_iff blocked_grid_ok [OF assms]
  by (simp add: Bex_def) blast

theorem collide_iff_witness:
  "grid_ok createGrid \<and> collide createGrid (shape (TETROMINOS PieceT)) 4 (- 1)"
proof -
  have "\<exists>y < length (shape (TETROMINOS PieceT)). \<exists>x < length (shape (TETROMINOS PieceT) ! y).
          shape (TETROMINOS PieceT) ! y ! x \<noteq> 0 \<and>
          (int x + 4 < 0 \<or> int COLS \<le> int x + 4
           \<or> int y + (- 1) < 0 \<or> int ROWS \<le> int y + (- 1)
           \<or> createGrid ! nat (int y + (- 1)) ! nat (int x + 4) \<noteq> Empty)"
    by (rule exI [of _ 0], simp, rule exI [of _ 1], simp)
  with collide_iff [OF grid_ok_createGrid, of "shape (TETROMINOS PieceT)" 4 "- 1"]
  show ?thesis by (simp add: grid_ok_createGrid)
qed

text \<open>
  The claim as the specification words it fails: the T piece one row above its spawn
  position, over the empty board, has its top block in row \<open>-1\<close>; no block is outside the
  columns, at a row \<open>\<ge> ROWS\<close> or over an occupied cell, and \<^verbatim>\<open>collide\<close> is true.
\<close>

theorem collide_above_top_counterexample:
  "collide createGrid (shape (TETROMINOS PieceT)) 4 (- 1)
   \<and> \<not> spec_collides createGrid (shape (TETROMINOS PieceT)) 4 (- 1)"
  by code_simp

subsection \<open>Rotation\<close>

lemma square_nth: "square m \<Longrightarrow> i < length m \<Longrightarrow> length (m ! i) = length m"
  by (simp add: square_def list_all_length)

lemma squareI: "(\<And>i. i < length m \<Longrightarrow> length (m ! i) = length m) \<Longrightarrow> square m"
  by (simp add: square_def list_all_length)

lemma square_eqI:
  assumes "square a" "square b" "length a = length b"
    and "\<And>i j. i < length a \<Longrightarrow> j < length a \<Longrightarrow> a ! i ! j = b ! i ! j"
  shows "a = b"
proof (rule nth_equalityI)
  show "length a = length b" by fact
next
  fix i assume i: "i < length a"
  show "a ! i = b ! i"
  proof (rule nth_equalityI)
    show "length (a ! i) = length (b ! i)"
      using assms(1-3) i by (simp add: square_nth)
  next
    fix j assume "j < length (a ! i)"
    with assms(1) i have "j < length a" by (simp add: square_nth)
    with i show "a ! i ! j = b ! i ! j" by (rule assms(4))
  qed
qed

lemma swap_cells_length [simp]: "length (swap_cells m x y) = length m"
  by (simp add: swap_cells_def Let_def)

lemma swap_cells_row_length:
  "i < length m \<Longrightarrow> length (swap_cells m x y ! i) = length (m ! i)"
  by (cases "i = y"; cases "i = x") (simp_all add: swap_cells_def Let_def)

lemma swap_cells_square: "square m \<Longrightarrow> square (swap_cells m x y)"
  by (rule squareI) (simp add: swap_cells_row_length square_nth)

lemma swap_cells_nth:
  assumes "square m" "x < length m" "y < length m" "x \<noteq> y" "i < length m" "j < length m"
  shows "swap_cells m x y ! i ! j =
    (if i = x \<and> j = y then m ! y ! x else if i = y \<and> j = x then m ! x ! y else m ! i ! j)"
  using assms by (auto simp: swap_cells_def Let_def nth_list_update square_nth)

lemma inner_loop_Suc: "inner_loop m y (Suc k) = swap_cells (inner_loop m y k) k y"
  by (simp add: inner_loop_def)

lemma inner_loop_square: "square m \<Longrightarrow> square (inner_loop m y k) \<and> length (inner_loop m y k) = length m"
  by (induction k) (simp_all add: inner_loop_Suc swap_cells_square, simp add: inner_loop_def)

lemma inner_loop_nth_all:
  assumes "square m" "y < length m"
  shows "k \<le> y \<Longrightarrow> \<forall>i < length m. \<forall>j < length m. inner_loop m y k ! i ! j =
    (if i < k \<and> j = y then m ! y ! i else if i = y \<and> j < k then m ! j ! y else m ! i ! j)"
proof (induction k)
  case 0
  show ?case by (simp add: inner_loop_def)
next
  case (Suc k)
  let ?R = "inner_loop m y k"
  from Suc have IH: "\<And>a b. a < length m \<Longrightarrow> b < length m \<Longrightarrow> ?R ! a ! b =
    (if a < k \<and> b = y then m ! y ! a else if a = y \<and> b < k then m ! b ! y else m ! a ! b)"
    and ky: "k < y" by simp_all
  have sq: "square ?R" and len: "length ?R = length m"
    using inner_loop_square [OF assms(1)] by simp_all
  from ky assms(2) have kn: "k < length m" by simp
  have yk: "?R ! y ! k = m ! y ! k" using IH [OF assms(2) kn] ky by simp
  have ky': "?R ! k ! y = m ! k ! y" using IH [OF kn assms(2)] ky by simp
  show ?case
  proof (intro allI impI)
    fix i j assume ij: "i < length m" "j < length m"
    have "inner_loop m y (Suc k) ! i ! j =
      (if i = k \<and> j = y then ?R ! y ! k else if i = y \<and> j = k then ?R ! k ! y else ?R ! i ! j)"
      unfolding inner_loop_Suc using sq len ky kn assms(2) ij
      by (subst swap_cells_nth) simp_all
    then show "inner_loop m y (Suc k) ! i ! j =
      (if i < Suc k \<and> j = y then m ! y ! i
       else if i = y \<and> j < Suc k then m ! j ! y else m ! i ! j)"
      using yk ky' IH [OF ij] ky by (auto simp: less_Suc_eq)
  qed
qed

lemma outer_loop_Suc: "outer_loop m (Suc k) = inner_loop (outer_loop m k) k k"
  by (simp add: outer_loop_def inner_loop_def)

lemma outer_loop_square: "square m \<Longrightarrow> square (outer_loop m k) \<and> length (outer_loop m k) = length m"
proof (induction k)
  case 0
  then show ?case by (simp add: outer_loop_def)
next
  case (Suc k)
  then show ?case using inner_loop_square [of "outer_loop m k" k k]
    by (simp add: outer_loop_Suc)
qed

lemma outer_loop_nth_all:
  assumes "square m"
  shows "k \<le> length m \<Longrightarrow> \<forall>i < length m. \<forall>j < length m. outer_loop m k ! i ! j =
    (if i < k \<and> j < k then m ! j ! i else m ! i ! j)"
proof (induction k)
  case 0
  show ?case by (simp add: outer_loop_def)
next
  case (Suc k)
  let ?R = "outer_loop m k"
  from Suc have IH: "\<And>a b. a < length m \<Longrightarrow> b < length m \<Longrightarrow> ?R ! a ! b =
    (if a < k \<and> b < k then m ! b ! a else m ! a ! b)"
    and kn: "k < length m" by simp_all
  have sq: "square ?R" and len: "length ?R = length m"
    using outer_loop_square [OF assms] by simp_all
  show ?case
  proof (intro allI impI)
    fix i j assume ij: "i < length m" "j < length m"
    have "inner_loop ?R k k ! i ! j =
      (if i < k \<and> j = k then ?R ! k ! i else if i = k \<and> j < k then ?R ! j ! k else ?R ! i ! j)"
      using inner_loop_nth_all [OF sq, of k k] kn ij len by simp
    then show "outer_loop m (Suc k) ! i ! j =
      (if i < Suc k \<and> j < Suc k then m ! j ! i else m ! i ! j)"
      unfolding outer_loop_Suc using IH [OF ij] IH [OF kn ij(1)] IH [OF ij(2) kn]
      by (auto simp: less_Suc_eq)
  qed
qed

lemma transpose_in_place_square:
  "square m \<Longrightarrow> square (transpose_in_place m) \<and> length (transpose_in_place m) = length m"
  using outer_loop_square [of m "length m"] by (simp add: transpose_in_place_def outer_loop_def)

lemma transpose_in_place_nth:
  "square m \<Longrightarrow> i < length m \<Longrightarrow> j < length m \<Longrightarrow> transpose_in_place m ! i ! j = m ! j ! i"
  using outer_loop_nth_all [of m "length m"] by (simp add: transpose_in_place_def outer_loop_def)

lemma rotate_matrix_square:
  assumes "square m"
  shows "square (rotate_matrix m dir)" and "length (rotate_matrix m dir) = length m"
proof -
  let ?t = "transpose_in_place m"
  have sq: "square ?t" and len: "length ?t = length m"
    using transpose_in_place_square [OF assms] by simp_all
  show "length (rotate_matrix m dir) = length m"
    by (simp add: rotate_matrix_def Let_def len)
  show "square (rotate_matrix m dir)"
  proof (rule squareI)
    fix i assume "i < length (rotate_matrix m dir)"
    then have i: "i < length ?t" by (simp add: rotate_matrix_def Let_def split: if_splits)
    then show "length (rotate_matrix m dir ! i) = length (rotate_matrix m dir)"
      using square_nth [OF sq] by (simp add: rotate_matrix_def Let_def rev_nth)
  qed
qed

lemma rotate_matrix_nth:
  assumes "square m" "i < length m" "j < length m"
  shows "rotate_matrix m dir ! i ! j =
    (if dir > 0 then m ! (length m - Suc j) ! i else m ! j ! (length m - Suc i))"
proof -
  let ?t = "transpose_in_place m"
  have sq: "square ?t" and len: "length ?t = length m"
    using transpose_in_place_square [OF assms(1)] by simp_all
  show ?thesis
  proof (cases "dir > 0")
    case True
    have "map rev ?t ! i ! j = ?t ! i ! (length m - Suc j)"
      using assms(2,3) len square_nth [OF sq, of i] by (simp add: rev_nth)
    also have "\<dots> = m ! (length m - Suc j) ! i"
      using assms by (simp add: transpose_in_place_nth)
    finally show ?thesis using True by (simp add: rotate_matrix_def Let_def)
  next
    case False
    have "rev ?t ! i ! j = ?t ! (length m - Suc i) ! j"
      using assms(2) len by (simp add: rev_nth)
    also have "\<dots> = m ! j ! (length m - Suc i)"
      using assms by (simp add: transpose_in_place_nth)
    finally show ?thesis using False by (simp add: rotate_matrix_def Let_def)
  qed
qed

lemma rotate_matrix_inverse:
  assumes "square m" "dir \<noteq> 0"
  shows "rotate_matrix (rotate_matrix m dir) (- dir) = m"
proof (rule square_eqI)
  let ?r = "rotate_matrix m dir"
  have sq: "square ?r" and len: "length ?r = length m"
    using rotate_matrix_square [OF assms(1)] by simp_all
  show "square (rotate_matrix ?r (- dir))" by (rule rotate_matrix_square [OF sq])
  show "square m" by fact
  show "length (rotate_matrix ?r (- dir)) = length m"
    by (simp add: rotate_matrix_square [OF sq] len)
  fix i j
  assume "i < length (rotate_matrix ?r (- dir))" "j < length (rotate_matrix ?r (- dir))"
  then have ij: "i < length m" "j < length m"
    by (simp_all add: rotate_matrix_square [OF sq] len)
  show "rotate_matrix ?r (- dir) ! i ! j = m ! i ! j"
  proof (cases "dir > 0")
    case True
    then show ?thesis using ij assms(1)
      by (simp add: rotate_matrix_nth [OF sq] len rotate_matrix_nth [OF assms(1)])
  next
    case False
    with assms(2) have "- dir > 0" by simp
    then show ?thesis using ij assms(1) False
      by (simp add: rotate_matrix_nth [OF sq] len rotate_matrix_nth [OF assms(1)])
  qed
qed

lemma rotate_matrix_twice_nth:
  assumes "square m" "i < length m" "j < length m"
  shows "rotate_matrix (rotate_matrix m dir) dir ! i ! j = m ! (length m - Suc i) ! (length m - Suc j)"
proof -
  let ?r = "rotate_matrix m dir"
  have sq: "square ?r" and len: "length ?r = length m"
    using rotate_matrix_square [OF assms(1)] by simp_all
  show ?thesis using assms
    by (simp add: rotate_matrix_nth [OF sq] len rotate_matrix_nth [OF assms(1)])
qed

lemma rotate_matrix_four:
  assumes "square m"
  shows "rotate_matrix (rotate_matrix (rotate_matrix (rotate_matrix m dir) dir) dir) dir = m"
proof (rule square_eqI)
  let ?r2 = "rotate_matrix (rotate_matrix m dir) dir"
  have sq2: "square ?r2" and len2: "length ?r2 = length m"
    using rotate_matrix_square [OF rotate_matrix_square(1) [OF assms]]
    by (simp_all add: rotate_matrix_square [OF assms])
  have sq4: "square (rotate_matrix (rotate_matrix ?r2 dir) dir)"
    and len4: "length (rotate_matrix (rotate_matrix ?r2 dir) dir) = length m"
    using rotate_matrix_square [OF rotate_matrix_square(1) [OF sq2]]
    by (simp_all add: rotate_matrix_square [OF sq2] len2)
  show "square (rotate_matrix (rotate_matrix ?r2 dir) dir)" by fact
  show "square m" by fact
  show "length (rotate_matrix (rotate_matrix ?r2 dir) dir) = length m" by fact
  fix i j
  assume "i < length (rotate_matrix (rotate_matrix ?r2 dir) dir)"
    "j < length (rotate_matrix (rotate_matrix ?r2 dir) dir)"
  then have ij: "i < length m" "j < length m" by (simp_all add: len4)
  then show "rotate_matrix (rotate_matrix ?r2 dir) dir ! i ! j = m ! i ! j"
    using assms by (simp add: rotate_matrix_twice_nth [OF sq2] len2 rotate_matrix_twice_nth [OF assms])
qed

lemma try_kicks_None:
  "try_kicks arena m x y ks = None \<longleftrightarrow>
     list_all (\<lambda>(ox, oy). collide arena m (x + ox) (y - oy)) ks"
  by (induction ks) (auto split: if_splits)

lemma try_kicks_Some:
  "try_kicks arena m x y ks = Some (x', y') \<Longrightarrow> \<not> collide arena m x' y'"
  by (induction ks) (auto split: if_splits)

lemma playerRotate_fail:
  assumes "square (matrix (player s))" "dir \<noteq> 0" "kick_found dir s = None"
  shows "playerRotate dir s = s"
  using assms by (simp add: playerRotate_def kick_found_def Let_def rotate_matrix_inverse)

lemma playerRotate_success:
  assumes "kick_found dir s = Some (x', y')"
  shows "player (playerRotate dir s) =
           (player s)\<lparr>pos_x := x', pos_y := y', matrix := rotate_matrix (matrix (player s)) dir,
             rotationIndex := js_rem (rotationIndex (player s) + dir + 4) 4\<rparr>"
  using assms by (simp add: playerRotate_def kick_found_def Let_def)

text \<open>
  Claim C6. When every kick candidate of a requested rotation collides, \<^verbatim>\<open>playerRotate\<close>
  leaves the game as it was: the matrix is rotated back, the position is restored after
  each candidate and \<open>rotationIndex\<close> is not written. The piece matrix is square and the
  direction is \<open>1\<close> or \<open>-1\<close>, as in every call.
\<close>

theorem playerRotate_blocked_unchanged:
  assumes "square (matrix (player s))"
    and "dir = 1 \<or> dir = - 1"
    and "list_all (\<lambda>(ox, oy). collide (grid s) (rotate_matrix (matrix (player s)) dir)
                      (pos_x (player s) + ox) (pos_y (player s) - oy))
           (getKickData (tetromino (player s)) (rotationIndex (player s)) dir)"
  shows "playerRotate dir s = s"
proof -
  from assms(3) have "kick_found dir s = None"
    by (simp add: kick_found_def Let_def try_kicks_None)
  moreover from assms(2) have "dir \<noteq> 0" by auto
  ultimately show ?thesis using assms(1) by (simp add: playerRotate_fail)
qed

lemma js_rem_nonneg: "0 \<le> a \<Longrightarrow> js_rem a 4 = a mod 4"
  by (simp add: js_rem_def sgn_if)

lemma next_rotation:
  assumes "0 \<le> r" "r < 4" "dir = 1 \<or> dir = - 1"
  shows "js_rem (r + dir + 4) 4 = (r + dir) mod 4"
proof -
  from assms have "0 \<le> r + dir + 4" by auto
  then show ?thesis by (simp add: js_rem_nonneg)
qed

lemma rotationIndex_four:
  assumes "r \<in> {0, 1, 2, 3}" "dir = 1 \<or> dir = - 1"
  shows "js_rem (js_rem (js_rem (js_rem (r + dir + 4) 4 + dir + 4) 4 + dir + 4) 4 + dir + 4) 4 = r"
proof -
  from assms(1) have r: "0 \<le> r" "r < 4" by auto
  have 1: "js_rem (r + dir + 4) 4 = (r + dir) mod 4"
    by (rule next_rotation [OF r assms(2)])
  have 2: "js_rem ((r + dir) mod 4 + dir + 4) 4 = (r + dir + dir) mod 4"
    using next_rotation [of "(r + dir) mod 4" dir] assms(2) by (simp add: mod_add_left_eq)
  have 3: "js_rem ((r + dir + dir) mod 4 + dir + 4) 4 = (r + dir + dir + dir) mod 4"
    using next_rotation [of "(r + dir + dir) mod 4" dir] assms(2) by (simp add: mod_add_left_eq)
  have 4: "js_rem ((r + dir + dir + dir) mod 4 + dir + 4) 4 = (r + dir + dir + dir + dir) mod 4"
    using next_rotation [of "(r + dir + dir + dir) mod 4" dir] assms(2)
    by (simp add: mod_add_left_eq)
  have "(r + dir + dir + dir + dir) mod 4 = r"
    using r assms(2) by auto
  then show ?thesis by (simp only: 1 2 3 4)
qed

text \<open>
  Claim C7, as the code has it. When each of four rotations in the same direction finds
  a candidate that does not collide, the matrix and \<open>rotationIndex\<close> are back at their
  first values; when moreover each of them took the candidate \<open>(0, 0)\<close>, so is the
  position.
\<close>

theorem four_rotations_restore:
  assumes "square (matrix (player s))"
    and "rotationIndex (player s) \<in> {0, 1, 2, 3}"
    and "dir = 1 \<or> dir = - 1"
    and "list_all (\<lambda>i. kick_found dir ((playerRotate dir ^^ i) s) \<noteq> None) [0..<4]"
  shows "matrix (player ((playerRotate dir ^^ 4) s)) = matrix (player s)
       \<and> rotationIndex (player ((playerRotate dir ^^ 4) s)) = rotationIndex (player s)
       \<and> (list_all (\<lambda>i. kick_found dir ((playerRotate dir ^^ i) s)
                         = Some (pos_x (player ((playerRotate dir ^^ i) s)),
                                 pos_y (player ((playerRotate dir ^^ i) s)))) [0..<4]
          \<longrightarrow> pos_x (player ((playerRotate dir ^^ 4) s)) = pos_x (player s)
            \<and> pos_y (player ((playerRotate dir ^^ 4) s)) = pos_y (player s))"
proof -
  define s1 where "s1 = playerRotate dir s"
  define s2 where "s2 = playerRotate dir s1"
  define s3 where "s3 = playerRotate dir s2"
  define s4 where "s4 = playerRotate dir s3"
  have pw: "(playerRotate dir ^^ 4) s = s4"
    "(playerRotate dir ^^ 3) s = s3" "(playerRotate dir ^^ 2) s = s2"
    "(playerRotate dir ^^ 1) s = s1" "(playerRotate dir ^^ 0) s = s"
    by (simp_all add: s1_def s2_def s3_def s4_def eval_nat_numeral)
  have upt4: "[0..<4] = [0, 1, 2, 3::nat]" by (simp add: upt_rec)
  from assms(4) obtain k0 k1 k2 k3 where
    k: "kick_found dir s = Some k0" "kick_found dir s1 = Some k1"
       "kick_found dir s2 = Some k2" "kick_found dir s3 = Some k3"
    unfolding upt4 using pw by (auto simp: One_nat_def [symmetric] simp del: One_nat_def)
  have p1: "player s1 = (player s)\<lparr>pos_x := fst k0, pos_y := snd k0,
        matrix := rotate_matrix (matrix (player s)) dir,
        rotationIndex := js_rem (rotationIndex (player s) + dir + 4) 4\<rparr>"
    unfolding s1_def using k(1) by (cases k0) (simp add: playerRotate_success)
  have p2: "player s2 = (player s1)\<lparr>pos_x := fst k1, pos_y := snd k1,
        matrix := rotate_matrix (matrix (player s1)) dir,
        rotationIndex := js_rem (rotationIndex (player s1) + dir + 4) 4\<rparr>"
    unfolding s2_def using k(2) by (cases k1) (simp add: playerRotate_success)
  have p3: "player s3 = (player s2)\<lparr>pos_x := fst k2, pos_y := snd k2,
        matrix := rotate_matrix (matrix (player s2)) dir,
        rotationIndex := js_rem (rotationIndex (player s2) + dir + 4) 4\<rparr>"
    unfolding s3_def using k(3) by (cases k2) (simp add: playerRotate_success)
  have p4: "player s4 = (player s3)\<lparr>pos_x := fst k3, pos_y := snd k3,
        matrix := rotate_matrix (matrix (player s3)) dir,
        rotationIndex := js_rem (rotationIndex (player s3) + dir + 4) 4\<rparr>"
    unfolding s4_def using k(4) by (cases k3) (simp add: playerRotate_success)
  have m: "matrix (player s4) = matrix (player s)"
    by (simp add: p4 p3 p2 p1 rotate_matrix_four [OF assms(1)])
  have r: "rotationIndex (player s4) = rotationIndex (player s)"
    by (simp add: p4 p3 p2 p1 rotationIndex_four [OF assms(2,3)])
  have pos: "pos_x (player s4) = pos_x (player s) \<and> pos_y (player s4) = pos_y (player s)"
    if "list_all (\<lambda>i. kick_found dir ((playerRotate dir ^^ i) s)
                         = Some (pos_x (player ((playerRotate dir ^^ i) s)),
                                 pos_y (player ((playerRotate dir ^^ i) s)))) [0..<4]"
  proof -
    from that have "k0 = (pos_x (player s), pos_y (player s))"
      "k1 = (pos_x (player s1), pos_y (player s1))"
      "k2 = (pos_x (player s2), pos_y (player s2))"
      "k3 = (pos_x (player s3), pos_y (player s3))"
      unfolding upt4 using pw k by (auto simp: One_nat_def [symmetric] simp del: One_nat_def)
    then show ?thesis by (simp add: p4 p3 p2 p1)
  qed
  show ?thesis unfolding pw using m r pos by blast
qed

text \<open>The I piece in the tunnel: each of the five candidates of the turn from 0 to 1 collides.\<close>

theorem playerRotate_blocked_unchanged_witness:
  "square (matrix (player tunnel_game)) \<and> \<not> collides tunnel_game
   \<and> playerRotate 1 tunnel_game = tunnel_game"
proof -
  have sq: "square (matrix (player tunnel_game))" by code_simp
  have nc: "\<not> collides tunnel_game" by code_simp
  have all: "list_all (\<lambda>(ox, oy). collide (grid tunnel_game)
                 (rotate_matrix (matrix (player tunnel_game)) 1)
                 (pos_x (player tunnel_game) + ox) (pos_y (player tunnel_game) - oy))
               (getKickData (tetromino (player tunnel_game)) (rotationIndex (player tunnel_game)) 1)"
    by code_simp
  from playerRotate_blocked_unchanged [of tunnel_game 1, OF sq _ all] sq nc
  show ?thesis by simp
qed

lemma grid_playerRotate: "grid (playerRotate dir s) = grid s"
  by (simp add: playerRotate_def Let_def split: option.splits)

lemma kick_found_cong:
  "player s = player s' \<Longrightarrow> grid s = grid s' \<Longrightarrow> kick_found dir s = kick_found dir s'"
  by (simp add: kick_found_def)

lemma rotate_step:
  assumes "player s = p" "grid s = g"
    and "kick_found dir (example_game\<lparr>grid := g, player := p\<rparr>) = Some (x', y')"
    and "rotate_matrix (matrix p) dir = m'"
    and "js_rem (rotationIndex p + dir + 4) 4 = r'"
  shows "kick_found dir s = Some (x', y')"
    and "player (playerRotate dir s) = p\<lparr>pos_x := x', pos_y := y', matrix := m', rotationIndex := r'\<rparr>"
    and "grid (playerRotate dir s) = g"
proof -
  show k: "kick_found dir s = Some (x', y')"
    using assms(3) kick_found_cong [of s "example_game\<lparr>grid := g, player := p\<rparr>" dir] assms(1,2)
    by simp
  show "player (playerRotate dir s) = p\<lparr>pos_x := x', pos_y := y', matrix := m', rotationIndex := r'\<rparr>"
    using playerRotate_success [OF k] assms(1,4,5) by simp
  show "grid (playerRotate dir s) = g" by (simp add: grid_playerRotate assms(2))
qed

text \<open>
  Without the condition the claim fails: in \<open>notch_game\<close> the first turn succeeds, the
  three following ones find every candidate colliding and do nothing, and the piece ends a
  quarter turn from where it began.
\<close>

theorem four_rotations_counterexample:
  "square (matrix (player notch_game)) \<and> \<not> collides notch_game
   \<and> rotationIndex (player notch_game) = 0
   \<and> matrix (player ((playerRotate 1 ^^ 4) notch_game)) \<noteq> matrix (player notch_game)
   \<and> rotationIndex (player ((playerRotate 1 ^^ 4) notch_game)) = 1"
proof -
  let ?s1 = "playerRotate 1 notch_game"
  have sq: "square (matrix (player notch_game))" by code_simp
  have nc: "\<not> collides notch_game" by code_simp
  have r0: "rotationIndex (player notch_game) = 0" by code_simp
  have p1: "player ?s1 = \<lparr>pos_x = 3, pos_y = 16,
      matrix = [[0, 0, 1, 0], [0, 0, 1, 0], [0, 0, 1, 0], [0, 0, 1, 0]],
      tetromino = PieceI, rotationIndex = 1\<rparr>"
    by code_simp
  have k1: "kick_found 1 (example_game\<lparr>grid := notch_grid, player := \<lparr>pos_x = 3, pos_y = 16,
      matrix = [[0, 0, 1, 0], [0, 0, 1, 0], [0, 0, 1, 0], [0, 0, 1, 0]],
      tetromino = PieceI, rotationIndex = 1\<rparr>\<rparr>) = None"
    by code_simp
  have g1: "grid ?s1 = notch_grid" by (simp add: grid_playerRotate notch_game_def)
  have "kick_found 1 ?s1 = None"
    using k1 kick_found_cong [OF _ _, of ?s1 "example_game\<lparr>grid := notch_grid, player := player ?s1\<rparr>" 1]
    by (simp add: p1 g1)
  moreover have "square (matrix (player ?s1))" unfolding p1 by code_simp
  ultimately have stay: "playerRotate 1 ?s1 = ?s1" by (simp add: playerRotate_fail)
  have "(playerRotate 1 ^^ 4) notch_game = ?s1" by (simp add: eval_nat_numeral stay)
  moreover have "matrix (player notch_game) = [[0,0,0,0],[1,1,1,1],[0,0,0,0],[0,0,0,0]]"
    by code_simp
  ultimately show ?thesis using sq nc r0 by (simp add: p1)
qed

text \<open>The T piece in the open turns four times, each time with the candidate \<open>(0, 0)\<close>.\<close>

theorem four_rotations_restore_witness:
  "square (matrix (player open_game))
   \<and> list_all (\<lambda>i. kick_found 1 ((playerRotate 1 ^^ i) open_game) \<noteq> None) [0..<4]
   \<and> matrix (player ((playerRotate 1 ^^ 4) open_game)) = matrix (player open_game)
   \<and> rotationIndex (player ((playerRotate 1 ^^ 4) open_game)) = rotationIndex (player open_game)
   \<and> pos_x (player ((playerRotate 1 ^^ 4) open_game)) = pos_x (player open_game)
   \<and> pos_y (player ((playerRotate 1 ^^ 4) open_game)) = pos_y (player open_game)"
proof -
  let ?p0 = "\<lparr>pos_x = 4, pos_y = 5, matrix = [[0, 1, 0], [1, 1, 1], [0, 0, 0]],
      tetromino = PieceT, rotationIndex = 0\<rparr>"
  let ?p1 = "\<lparr>pos_x = 4, pos_y = 5, matrix = [[0, 1, 0], [0, 1, 1], [0, 1, 0]],
      tetromino = PieceT, rotationIndex = 1\<rparr>"
  let ?p2 = "\<lparr>pos_x = 4, pos_y = 5, matrix = [[0, 0, 0], [1, 1, 1], [0, 1, 0]],
      tetromino = PieceT, rotationIndex = 2\<rparr>"
  let ?p3 = "\<lparr>pos_x = 4, pos_y = 5, matrix = [[0, 1, 0], [1, 1, 0], [0, 1, 0]],
      tetromino = PieceT, rotationIndex = 3\<rparr>"
  let ?s1 = "playerRotate 1 open_game"
  let ?s2 = "playerRotate 1 ?s1"
  let ?s3 = "playerRotate 1 ?s2"
  have pw: "(playerRotate 1 ^^ 0) open_game = open_game" "(playerRotate 1 ^^ 1) open_game = ?s1"
    "(playerRotate 1 ^^ 2) open_game = ?s2" "(playerRotate 1 ^^ 3) open_game = ?s3"
    by (simp_all add: eval_nat_numeral)
  have upt4: "[0..<4] = [0, 1, 2, 3::nat]" by (simp add: upt_rec)
  have sq: "square (matrix (player open_game))" by code_simp
  have r: "rotationIndex (player open_game) \<in> {0, 1, 2, 3}" by code_simp
  have p0: "player open_game = ?p0" by code_simp
  have g0: "grid open_game = createGrid" by (simp add: open_game_def example_game_def)
  have a0: "kick_found 1 (example_game\<lparr>grid := createGrid, player := ?p0\<rparr>) = Some (4, 5)"
    and m0: "rotate_matrix (matrix ?p0) 1 = [[0, 1, 0], [0, 1, 1], [0, 1, 0]]"
    and i0: "js_rem (rotationIndex ?p0 + 1 + 4) 4 = 1" by code_simp+
  have a1: "kick_found 1 (example_game\<lparr>grid := createGrid, player := ?p1\<rparr>) = Some (4, 5)"
    and m1: "rotate_matrix (matrix ?p1) 1 = [[0, 0, 0], [1, 1, 1], [0, 1, 0]]"
    and i1: "js_rem (rotationIndex ?p1 + 1 + 4) 4 = 2" by code_simp+
  have a2: "kick_found 1 (example_game\<lparr>grid := createGrid, player := ?p2\<rparr>) = Some (4, 5)"
    and m2: "rotate_matrix (matrix ?p2) 1 = [[0, 1, 0], [1, 1, 0], [0, 1, 0]]"
    and i2: "js_rem (rotationIndex ?p2 + 1 + 4) 4 = 3" by code_simp+
  have a3: "kick_found 1 (example_game\<lparr>grid := createGrid, player := ?p3\<rparr>) = Some (4, 5)"
    by code_simp
  have s1: "kick_found 1 open_game = Some (4, 5)" "player ?s1 = ?p1" "grid ?s1 = createGrid"
    using rotate_step [OF p0 g0 a0 m0 i0] by simp_all
  have s2: "kick_found 1 ?s1 = Some (4, 5)" "player ?s2 = ?p2" "grid ?s2 = createGrid"
    using rotate_step [OF s1(2,3) a1 m1 i1] by simp_all
  have s3: "kick_found 1 ?s2 = Some (4, 5)" "player ?s3 = ?p3" "grid ?s3 = createGrid"
    using rotate_step [OF s2(2,3) a2 m2 i2] by simp_all
  have s4: "kick_found 1 ?s3 = Some (4, 5)"
    using a3 kick_found_cong [of ?s3 "example_game\<lparr>grid := createGrid, player := ?p3\<rparr>" 1]
    by (simp add: s3)
  have ok: "list_all (\<lambda>i. kick_found 1 ((playerRotate 1 ^^ i) open_game) \<noteq> None) [0..<4]"
    unfolding upt4 using pw by (simp add: s1 s2 s3 s4 del: funpow.simps)
  have ok0: "list_all (\<lambda>i. kick_found 1 ((playerRotate 1 ^^ i) open_game)
                         = Some (pos_x (player ((playerRotate 1 ^^ i) open_game)),
                                 pos_y (player ((playerRotate 1 ^^ i) open_game)))) [0..<4]"
    unfolding upt4 using pw by (simp add: s1 s2 s3 s4 p0 del: funpow.simps)
  from four_rotations_restore [of open_game 1, OF sq r _ ok] ok0 sq ok
  show ?thesis by blast
qed

subsection \<open>Lock delay\<close>

lemma playerMove_blocked: "move_collides dir s \<Longrightarrow> playerMove dir s = s"
  by (simp add: playerMove_def Let_def)

lemma playerMove_lock:
  "\<not> move_collides dir s \<Longrightarrow>
   isLocking (playerMove dir s) = isLocking s
   \<and> lockTimer (playerMove dir s) = (if isLocking s \<and> lockMoves s < maxLockMoves then 0 else lockTimer s)
   \<and> lockMoves (playerMove dir s) = (if isLocking s \<and> lockMoves s < maxLockMoves then lockMoves s + 1 else lockMoves s)"
  by (simp add: playerMove_def Let_def)

lemma playerRotate_lock:
  "kick_found dir s \<noteq> None \<Longrightarrow>
   isLocking (playerRotate dir s) = isLocking s
   \<and> lockTimer (playerRotate dir s) = (if isLocking s \<and> lockMoves s < maxLockMoves then 0 else lockTimer s)
   \<and> lockMoves (playerRotate dir s) = (if isLocking s \<and> lockMoves s < maxLockMoves then lockMoves s + 1 else lockMoves s)"
  by (auto simp: playerRotate_def kick_found_def Let_def split: option.splits)

lemma playerMove_capped:
  "maxLockMoves \<le> lockMoves s \<Longrightarrow>
   isLocking (playerMove dir s) = isLocking s \<and> lockTimer (playerMove dir s) = lockTimer s
   \<and> lockMoves (playerMove dir s) = lockMoves s"
  by (simp add: playerMove_def Let_def)

lemma playerRotate_capped:
  "maxLockMoves \<le> lockMoves s \<Longrightarrow>
   isLocking (playerRotate dir s) = isLocking s \<and> lockTimer (playerRotate dir s) = lockTimer s
   \<and> lockMoves (playerRotate dir s) = lockMoves s"
  by (simp add: playerRotate_def Let_def split: option.splits)

lemma apply_inputs_capped:
  "maxLockMoves \<le> lockMoves s \<Longrightarrow>
   isLocking (apply_inputs ins s) = isLocking s \<and> lockTimer (apply_inputs ins s) = lockTimer s
   \<and> lockMoves (apply_inputs ins s) = lockMoves s"
proof (induction ins arbitrary: s)
  case Nil
  show ?case by (simp add: apply_inputs_def)
next
  case (Cons i ins)
  have step: "isLocking (apply_input i s) = isLocking s \<and> lockTimer (apply_input i s) = lockTimer s
    \<and> lockMoves (apply_input i s) = lockMoves s"
    using Cons.prems by (cases i) (simp_all add: playerMove_capped playerRotate_capped)
  with Cons.prems have "maxLockMoves \<le> lockMoves (apply_input i s)" by simp
  from Cons.IH [OF this] step show ?case by (simp add: apply_inputs_def)
qed

lemma playerReset_lock:
  "\<not> isLocking (playerReset s) \<and> lockTimer (playerReset s) = 0 \<and> lockMoves (playerReset s) = 0"
  by (simp add: playerReset_def gameOver_def Let_def split: prod.splits option.splits)

lemma playerDrop_lock: "isLocking (playerDrop s) \<longleftrightarrow> drop_collides s"
  by (simp add: playerDrop_def Let_def)

lemma manualDrop_lock: "isLocking (manualDrop s) \<longleftrightarrow> drop_collides s"
  by (simp add: manualDrop_def Let_def)

lemma update_locking:
  assumes "state s = PLAYING" "\<not> isAnimatingClear s" "isLocking s"
    and "dropInterval s < dropCounter s + (t - lastTime s) \<longrightarrow> drop_collides s"
  shows "update t s =
    (let dt = t - lastTime s;
         s' = s\<lparr>lastTime := t,
                dropCounter := (if dropInterval s < dropCounter s + dt then 0 else dropCounter s + dt),
                lockTimer := lockTimer s + dt\<rparr>
     in if lockDelay \<le> lockTimer s + dt then lockPiece s' else Inr s')"
  using assms by (simp add: update_def playerDrop_def Let_def)

text \<open>
  Claim C4, as the code has it. While lock delay is armed and the counter of resets is
  under its cap, a successful horizontal move or rotation sets the lock timer to zero and
  counts one reset; the piece stays in the locking state. \<^verbatim>\<open>playerReset\<close> resets the lock
  state, so every spawn of a piece from the lookahead does, also the one of a hold into the
  empty slot. After a gravity drop or a manual drop the piece is in the locking state
  exactly when the drop could not move it down.
\<close>

theorem lock_state_lifecycle:
  "(isLocking s \<and> lockMoves s < maxLockMoves \<and> \<not> move_collides dir s \<longrightarrow>
      isLocking (playerMove dir s) \<and> lockTimer (playerMove dir s) = 0
      \<and> lockMoves (playerMove dir s) = lockMoves s + 1)
   \<and> (isLocking s \<and> lockMoves s < maxLockMoves \<and> kick_found dir s \<noteq> None \<longrightarrow>
      isLocking (playerRotate dir s) \<and> lockTimer (playerRotate dir s) = 0
      \<and> lockMoves (playerRotate dir s) = lockMoves s + 1)
   \<and> (\<not> isLocking (playerReset s) \<and> lockTimer (playerReset s) = 0 \<and> lockMoves (playerReset s) = 0)
   \<and> (canHold s \<and> state s = PLAYING \<and> holdPiece s = None \<longrightarrow>
        \<not> isLocking (holdTetromino s) \<and> lockTimer (holdTetromino s) = 0
        \<and> lockMoves (holdTetromino s) = 0)
   \<and> (isLocking (playerDrop s) \<longleftrightarrow> drop_collides s)
   \<and> (isLocking (manualDrop s) \<longleftrightarrow> drop_collides s)"
  using playerMove_lock [where s = s and dir = dir] playerRotate_lock [where s = s and dir = dir]
    playerReset_lock [of s] playerDrop_lock [of s] manualDrop_lock [of s]
    playerReset_lock [of "s\<lparr>holdPiece := Some (tetromino (player s))\<rparr>"]
  by (simp add: holdTetromino_def Let_def)

theorem lock_state_lifecycle_witness:
  "isLocking resting_game \<and> lockMoves resting_game < maxLockMoves
   \<and> \<not> move_collides 1 resting_game \<and> kick_found 1 resting_game \<noteq> None
   \<and> isLocking (playerMove 1 resting_game) \<and> lockTimer (playerMove 1 resting_game) = 0
   \<and> lockMoves (playerMove 1 resting_game) = lockMoves resting_game + 1
   \<and> isLocking (playerRotate 1 resting_game) \<and> lockTimer (playerRotate 1 resting_game) = 0
   \<and> lockMoves (playerRotate 1 resting_game) = lockMoves resting_game + 1
   \<and> canHold resting_game \<and> state resting_game = PLAYING \<and> holdPiece resting_game = None
   \<and> \<not> isLocking (holdTetromino resting_game) \<and> lockTimer (holdTetromino resting_game) = 0
   \<and> lockMoves (holdTetromino resting_game) = 0"
proof -
  have h: "isLocking resting_game" "lockMoves resting_game < maxLockMoves"
    "\<not> move_collides 1 resting_game" "kick_found 1 resting_game \<noteq> None"
    "canHold resting_game" "state resting_game = PLAYING" "holdPiece resting_game = None"
    by code_simp+
  with lock_state_lifecycle [where s = resting_game and dir = 1] show ?thesis by blast
qed

text \<open>
  The claim fails in two places. A successful move or rotation does not take the piece out
  of the locking state: \<open>isLocking\<close> is still set after either. And not every spawn resets
  the lock state: the swap branch of \<^verbatim>\<open>holdTetromino\<close> puts the held piece at its spawn
  position without \<^verbatim>\<open>playerReset\<close>, so the flag, the 200 ms on the timer and the three
  counted resets of the piece before pass on to the I piece swapped in.
\<close>

theorem lock_state_counterexample:
  "isLocking resting_game \<and> lockMoves resting_game < maxLockMoves
   \<and> \<not> move_collides 1 resting_game \<and> kick_found 1 resting_game \<noteq> None
   \<and> isLocking (playerMove 1 resting_game) \<and> isLocking (playerRotate 1 resting_game)
   \<and> canHold swap_game \<and> state swap_game = PLAYING \<and> holdPiece swap_game = Some PieceI
   \<and> player (holdTetromino swap_game) = spawn_piece PieceI
   \<and> isLocking (holdTetromino swap_game) \<and> lockTimer (holdTetromino swap_game) = 200
   \<and> lockMoves (holdTetromino swap_game) = 3"
proof -
  have "isLocking resting_game \<and> lockMoves resting_game < maxLockMoves
   \<and> \<not> move_collides 1 resting_game \<and> kick_found 1 resting_game \<noteq> None
   \<and> isLocking (playerMove 1 resting_game) \<and> isLocking (playerRotate 1 resting_game)"
    by code_simp
  moreover have "canHold swap_game \<and> state swap_game = PLAYING \<and> holdPiece swap_game = Some PieceI
   \<and> player (holdTetromino swap_game) = spawn_piece PieceI
   \<and> isLocking (holdTetromino swap_game) \<and> lockTimer (holdTetromino swap_game) = 200
   \<and> lockMoves (holdTetromino swap_game) = 3"
    by (simp add: holdTetromino_def Let_def swap_game_def resting_game_def example_game_def)
  ultimately show ?thesis by blast
qed

subsection \<open>Calls that do nothing\<close>

text \<open>
  Claim C9, as the code has it. \<^verbatim>\<open>holdTetromino\<close> returns the game unchanged when hold was
  already used for the piece or when the game is not being played, and \<^verbatim>\<open>playerMove\<close>
  returns it unchanged when the shifted position collides. When the shifted position is
  free, \<^verbatim>\<open>playerMove\<close> shifts the piece whatever the session state is.
\<close>

theorem invalid_calls_noop:
  "(\<not> canHold s \<or> state s \<noteq> PLAYING \<longrightarrow> holdTetromino s = s)
   \<and> (move_collides dir s \<longrightarrow> playerMove dir s = s)
   \<and> (\<not> move_collides dir s \<longrightarrow>
        pos_x (player (playerMove dir s)) = pos_x (player s) + dir
        \<and> state (playerMove dir s) = state s)"
  by (simp add: holdTetromino_def playerMove_blocked) (simp add: playerMove_def Let_def)

theorem invalid_calls_noop_witness:
  "\<not> canHold held_game \<and> holdTetromino held_game = held_game
   \<and> state gameover_game \<noteq> PLAYING \<and> holdTetromino gameover_game = gameover_game
   \<and> move_collides (- 1) gameover_game \<and> playerMove (- 1) gameover_game = gameover_game
   \<and> \<not> move_collides 1 held_game
   \<and> pos_x (player (playerMove 1 held_game)) = pos_x (player held_game) + 1"
proof -
  have h: "\<not> canHold held_game" "state gameover_game \<noteq> PLAYING" "move_collides (- 1) gameover_game"
    "\<not> move_collides 1 held_game"
    by code_simp+
  with invalid_calls_noop [where s = held_game and dir = 1]
    invalid_calls_noop [where s = gameover_game and dir = "- 1"]
  show ?thesis by blast
qed

text \<open>
  \<^verbatim>\<open>playerMove\<close> does not look at the session state (its callers do): in the state in
  which \<^verbatim>\<open>playerReset\<close> has ended the game on \<open>blocked_spawn_grid\<close>, a move to the right, where
  the piece is free, still shifts it.
\<close>

theorem move_in_gameover_counterexample:
  "state (playerReset (example_game\<lparr>grid := blocked_spawn_grid, nextPiece := Some PieceT\<rparr>))
     = GAMEOVER
   \<and> player (playerReset (example_game\<lparr>grid := blocked_spawn_grid, nextPiece := Some PieceT\<rparr>))
     = player gameover_game
   \<and> grid (playerReset (example_game\<lparr>grid := blocked_spawn_grid, nextPiece := Some PieceT\<rparr>))
     = grid gameover_game
   \<and> state gameover_game = GAMEOVER
   \<and> collides gameover_game
   \<and> playerMove 1 gameover_game \<noteq> gameover_game
   \<and> pos_x (player gameover_game) = 4
   \<and> pos_x (player (playerMove 1 gameover_game)) = 5"
proof -
  have "state (playerReset (example_game\<lparr>grid := blocked_spawn_grid, nextPiece := Some PieceT\<rparr>))
      = GAMEOVER
    \<and> player (playerReset (example_game\<lparr>grid := blocked_spawn_grid, nextPiece := Some PieceT\<rparr>))
      = player gameover_game
    \<and> grid (playerReset (example_game\<lparr>grid := blocked_spawn_grid, nextPiece := Some PieceT\<rparr>))
      = grid gameover_game"
    by code_simp
  moreover have "state gameover_game = GAMEOVER" "collides gameover_game"
    "pos_x (player gameover_game) = 4" "pos_x (player (playerMove 1 gameover_game)) = 5"
    by code_simp+
  ultimately show ?thesis by auto
qed

subsection \<open>The bag\<close>

lemma valid_random_tail: "valid_random r \<Longrightarrow> valid_random (\<lambda>n. r (Suc n))"
  by (simp add: valid_random_def)

lemma random_index:
  assumes "valid_random r"
  shows "nat \<lfloor>r 0 * real (Suc i + 1)\<rfloor> \<le> Suc i"
proof -
  from assms have r: "0 \<le> r 0" "r 0 < 1" by (simp_all add: valid_random_def)
  then have "r 0 * real (Suc i + 1) < real (Suc i + 1)" by simp
  then have "\<lfloor>r 0 * real (Suc i + 1)\<rfloor> < int (Suc i + 1)"
    by (simp add: floor_less_iff)
  then show ?thesis by linarith
qed

lemma mset_swap_cells: "i < length xs \<Longrightarrow> j < length xs \<Longrightarrow> mset (swap xs i j) = mset xs"
  unfolding swap_def by (metis mset_swap)

lemma length_swap [simp]: "length (swap xs i j) = length xs"
  by (simp add: swap_def)

lemma shuffle_mset:
  "valid_random r \<Longrightarrow> i < length pieces \<Longrightarrow>
   mset (fst (shuffle i pieces r)) = mset pieces \<and> valid_random (snd (shuffle i pieces r))"
proof (induction i arbitrary: pieces r)
  case 0
  then show ?case by simp
next
  case (Suc i)
  let ?j = "nat \<lfloor>r 0 * real (Suc i + 1)\<rfloor>"
  have j: "?j < length pieces"
    using random_index [OF Suc.prems(1), of i] Suc.prems(2) by (rule le_less_trans)
  have "mset (swap pieces (Suc i) ?j) = mset pieces"
    using Suc.prems(2) j by (rule mset_swap_cells)
  moreover have "i < length (swap pieces (Suc i) ?j)" using Suc.prems(2) by simp
  ultimately show ?case
    using Suc.IH [OF valid_random_tail [OF Suc.prems(1)], of "swap pieces (Suc i) ?j"]
    by (simp add: Let_def)
qed

lemma fillBag_bag:
  assumes "valid_random (rnd s)"
  shows "mset (bag (fillBag s)) = mset all_pieces" and "valid_random (rnd (fillBag s))"
  using shuffle_mset [OF assms, of "length all_pieces - 1" all_pieces]
  by (simp_all add: fillBag_def all_pieces_def split: prod.splits)

lemma fillBag_nonempty: "valid_random (rnd s) \<Longrightarrow> bag (fillBag s) \<noteq> []"
  using fillBag_bag(1) [of s] by (auto simp: all_pieces_def)

lemma getNextFromBag_nonempty:
  "bag s \<noteq> [] \<Longrightarrow> getNextFromBag s = (last (bag s), s\<lparr>bag := butlast (bag s)\<rparr>)"
  by (simp add: getNextFromBag_def)

lemma getNextFromBag_empty:
  "valid_random (rnd s) \<Longrightarrow> bag s = [] \<Longrightarrow> getNextFromBag s = getNextFromBag (fillBag s)"
  by (simp add: getNextFromBag_def fillBag_nonempty)

lemma draws_pop:
  "length (bag s) = n \<Longrightarrow> draws n s = (rev (bag s), s\<lparr>bag := []\<rparr>)"
proof (induction n arbitrary: s)
  case 0
  then show ?case by simp
next
  case (Suc n)
  then have ne: "bag s \<noteq> []" by auto
  let ?s1 = "s\<lparr>bag := butlast (bag s)\<rparr>"
  from Suc.prems have "length (bag ?s1) = n" by simp
  from Suc.IH [OF this] have "draws n ?s1 = (rev (butlast (bag s)), s\<lparr>bag := []\<rparr>)" by simp
  moreover have "last (bag s) # rev (butlast (bag s)) = rev (bag s)"
    using ne by (cases "bag s" rule: rev_cases) simp_all
  ultimately show ?case using ne by (simp add: getNextFromBag_nonempty)
qed

lemma draws_from_boundary:
  assumes "valid_random (rnd s)" "bag s = []"
  shows "draws 7 s = (rev (bag (fillBag s)), (fillBag s)\<lparr>bag := []\<rparr>)"
proof -
  have "length (bag (fillBag s)) = length all_pieces"
    using fillBag_bag(1) [OF assms(1)] by (rule mset_eq_length)
  then have len: "length (bag (fillBag s)) = 7" by (simp add: all_pieces_def)
  have "draws 7 s = draws 7 (fillBag s)"
    using assms by (simp add: eval_nat_numeral getNextFromBag_empty)
  with draws_pop [OF len] show ?thesis by simp
qed


lemma draws_add:
  "draws (a + b) s =
     (let (xs, s1) = draws a s; (ys, s2) = draws b s1 in (xs @ ys, s2))"
  by (induction a arbitrary: s) (simp_all add: Let_def split: prod.splits)

lemma length_draws: "length (fst (draws n s)) = n"
proof (induction n arbitrary: s)
  case 0
  show ?case by simp
next
  case (Suc n)
  obtain k s1 where g: "getNextFromBag s = (k, s1)" by (cases "getNextFromBag s")
  obtain ks s2 where d: "draws n s1 = (ks, s2)" by (cases "draws n s1")
  from Suc [of s1] d have "length ks = n" by simp
  with g d show ?case by simp
qed

lemma draws_windows:
  assumes "valid_random (rnd s)" "bag s = []"
  shows "bag (snd (draws (7 * n) s)) = [] \<and> valid_random (rnd (snd (draws (7 * n) s)))
       \<and> (\<forall>k < n. mset (take 7 (drop (7 * k) (fst (draws (7 * n) s)))) = mset all_pieces)"
proof (induction n)
  case 0
  show ?case using assms by simp
next
  case (Suc n)
  obtain xs s1 where d1: "draws (7 * n) s = (xs, s1)" by (cases "draws (7 * n) s")
  from Suc d1 have b1: "bag s1 = []" and v1: "valid_random (rnd s1)"
    and w: "\<And>k. k < n \<Longrightarrow> mset (take 7 (drop (7 * k) xs)) = mset all_pieces"
    by simp_all
  from length_draws [of "7 * n" s] d1 have lx: "length xs = 7 * n" by simp
  let ?ys = "rev (bag (fillBag s1))"
  have d2: "draws 7 s1 = (?ys, (fillBag s1)\<lparr>bag := []\<rparr>)"
    by (rule draws_from_boundary [OF v1 b1])
  have my: "mset ?ys = mset all_pieces" using fillBag_bag(1) [OF v1] by simp
  then have ly: "length ?ys = 7"
    using mset_eq_length [of ?ys all_pieces] by (simp add: all_pieces_def)
  have e: "7 * Suc n = 7 * n + 7" by simp
  have d: "draws (7 * Suc n) s = (xs @ ?ys, (fillBag s1)\<lparr>bag := []\<rparr>)"
    unfolding e using draws_add [of "7 * n" 7 s] d1 d2 by simp
  have "mset (take 7 (drop (7 * k) (xs @ ?ys))) = mset all_pieces" if "k < Suc n" for k
  proof (cases "k < n")
    case True
    then have "7 * k + 7 \<le> length xs" using lx by simp
    then have "take 7 (drop (7 * k) (xs @ ?ys)) = take 7 (drop (7 * k) xs)" by simp
    with w [OF True] show ?thesis by simp
  next
    case False
    with that have "k = n" by simp
    then have "take 7 (drop (7 * k) (xs @ ?ys)) = ?ys" using lx ly by simp
    with my show ?thesis by simp
  qed
  then show ?case using d fillBag_bag(2) [OF v1] by simp
qed

lemma count_all_pieces: "count (mset all_pieces) k = 1"
  by (cases k) (simp_all add: all_pieces_def)

text \<open>
  Claim C8. From a bag boundary (the bag is empty), whatever values the shuffle draws,
  each block of seven consecutive draws holds every piece kind exactly once, and the bag
  is empty again after each block. Each refill is a bag of seven pieces holding every
  kind once. \<^verbatim>\<open>getNextFromBag\<close> refills only an empty bag: from a bag that is not empty it
  takes the last piece and draws no random value.
\<close>

theorem bag_draws_each_kind_once:
  assumes "valid_random (rnd s)" and "bag s = []"
  shows "count (mset (take 7 (drop (7 * n) (fst (draws (7 * n + 7) s))))) k = 1
       \<and> bag (snd (draws (7 * n) s)) = []
       \<and> count (mset (bag (fillBag s))) k = 1 \<and> length (bag (fillBag s)) = 7
       \<and> (\<forall>s'. bag s' \<noteq> [] \<longrightarrow>
             getNextFromBag s' = (last (bag s'), s'\<lparr>bag := butlast (bag s')\<rparr>))"
proof -
  have e: "7 * n + 7 = 7 * Suc n" by simp
  have "mset (take 7 (drop (7 * n) (fst (draws (7 * n + 7) s)))) = mset all_pieces"
    unfolding e using draws_windows [OF assms, of "Suc n"] by blast
  then have 1: "count (mset (take 7 (drop (7 * n) (fst (draws (7 * n + 7) s))))) k = 1"
    by (simp only: count_all_pieces)
  have 2: "bag (snd (draws (7 * n) s)) = []" using draws_windows [OF assms, of n] by simp
  have 3: "count (mset (bag (fillBag s))) k = 1"
    using fillBag_bag(1) [OF assms(1)] by (simp only: count_all_pieces)
  have "length (bag (fillBag s)) = length all_pieces"
    using fillBag_bag(1) [OF assms(1)] by (rule mset_eq_length)
  then have 4: "length (bag (fillBag s)) = 7" by (simp add: all_pieces_def)
  show ?thesis using 1 2 3 4 by (simp add: getNextFromBag_nonempty)
qed

text \<open>The third block of seven draws from an empty bag holds the T piece once.\<close>

theorem bag_draws_each_kind_once_witness:
  "valid_random (rnd (example_game\<lparr>bag := []\<rparr>)) \<and> bag (example_game\<lparr>bag := []\<rparr>) = []
   \<and> count (mset (take 7 (drop (7 * 2) (fst (draws (7 * 2 + 7) (example_game\<lparr>bag := []\<rparr>)))))) PieceT = 1
   \<and> count (mset (bag (fillBag (example_game\<lparr>bag := []\<rparr>)))) PieceT = 1"
proof -
  have v: "valid_random (rnd (example_game\<lparr>bag := []\<rparr>))"
    by (simp add: valid_random_def example_game_def)
  have b: "bag (example_game\<lparr>bag := []\<rparr>) = []" by simp
  from bag_draws_each_kind_once [OF v b, of 2 PieceT] v b show ?thesis by blast
qed

subsection \<open>Hard drop\<close>

lemma collide_iff_ex:
  "collide arena m ox oy \<longleftrightarrow>
     (\<exists>y < length m. \<exists>x < length (m ! y). m ! y ! x \<noteq> 0 \<and> blocked arena (int y + oy) (int x + ox))"
  unfolding collide_def list_ex_iff by (simp add: Bex_def)

lemma has_block_iff: "has_block m \<longleftrightarrow> (\<exists>y < length m. \<exists>x < length (m ! y). m ! y ! x \<noteq> 0)"
proof
  assume "has_block m"
  then obtain row v where "row \<in> set m" "v \<in> set row" "v \<noteq> 0"
    unfolding has_block_def list_ex_iff by blast
  then obtain y x where "y < length m" "m ! y = row" "x < length row" "row ! x = v"
    by (auto simp: in_set_conv_nth)
  with \<open>v \<noteq> 0\<close> show "\<exists>y < length m. \<exists>x < length (m ! y). m ! y ! x \<noteq> 0" by blast
next
  assume "\<exists>y < length m. \<exists>x < length (m ! y). m ! y ! x \<noteq> 0"
  then obtain y x where "y < length m" "x < length (m ! y)" "m ! y ! x \<noteq> 0" by blast
  then have "m ! y \<in> set m" "m ! y ! x \<in> set (m ! y)" by simp_all
  with \<open>m ! y ! x \<noteq> 0\<close> show "has_block m" unfolding has_block_def list_ex_iff by blast
qed

lemma collide_below:
  assumes "has_block m" "int (length arena) \<le> y"
  shows "collide arena m x y"
proof -
  from assms(1) obtain r c where rc: "r < length m" "c < length (m ! r)" "m ! r ! c \<noteq> 0"
    unfolding has_block_iff by blast
  from assms(2) have "blocked arena (int r + y) (int c + x)" by (simp add: blocked_def)
  with rc show ?thesis unfolding collide_iff_ex by blast
qed

lemma drop_loop_result:
  assumes "has_block m"
  shows "\<exists>y'. y \<le> y' \<and> drop_loop arena m x y d = Some (y', d + (y' - y))
           \<and> collide arena m x y' \<and> (\<forall>z. y \<le> z \<and> z < y' \<longrightarrow> \<not> collide arena m x z)"
proof (induction "nat (int (length arena) - y)" arbitrary: y d rule: less_induct)
  case less
  show ?case
  proof (cases "collide arena m x y")
    case True
    then have "drop_loop arena m x y d = Some (y, d + (y - y))"
      by (subst drop_loop.simps) simp
    with True show ?thesis by (intro exI [of _ y]) auto
  next
    case False
    with collide_below [OF assms, of arena y x] have "y < int (length arena)" by force
    then have "nat (int (length arena) - (y + 1)) < nat (int (length arena) - y)" by simp
    from less [OF this, of "d + 1"] obtain y' where
      y': "y + 1 \<le> y'" "drop_loop arena m x (y + 1) (d + 1) = Some (y', d + 1 + (y' - (y + 1)))"
        "collide arena m x y'" "\<forall>z. y + 1 \<le> z \<and> z < y' \<longrightarrow> \<not> collide arena m x z"
      by blast
    have "drop_loop arena m x y d = Some (y', d + (y' - y))"
      using False y'(2) by (subst drop_loop.simps) simp
    moreover have "\<forall>z. y \<le> z \<and> z < y' \<longrightarrow> \<not> collide arena m x z"
    proof (intro allI impI)
      fix z assume z: "y \<le> z \<and> z < y'"
      show "\<not> collide arena m x z"
      proof (cases "z = y")
        case True with False show ?thesis by simp
      next
        case False with z y'(4) show ?thesis by simp
      qed
    qed
    ultimately show ?thesis using y'(1,3) by (intro exI [of _ y']) simp
  qed
qed

lemma merge_row_Inr:
  assumes "(0 \<le> r \<and> r < int (length arena)) \<or> (\<forall>v \<in> set row. v = 0)"
  shows "\<exists>a'. merge_row arena r c v row = Inr a' \<and> length a' = length arena"
  using assms
proof (induction row arbitrary: arena c)
  case Nil
  show ?case by simp
next
  case (Cons val rest)
  show ?case
  proof (cases "val \<noteq> 0")
    case True
    with Cons.prems have r: "0 \<le> r \<and> r < int (length arena)" by auto
    let ?a = "arena[nat r := assign_cell (arena ! nat r) c v]"
    from r have "(0 \<le> r \<and> r < int (length ?a)) \<or> (\<forall>v \<in> set rest. v = 0)" by simp
    from Cons.IH [OF this, of "c + 1"] True r show ?thesis by simp
  next
    case False
    from Cons.prems have "(0 \<le> r \<and> r < int (length arena)) \<or> (\<forall>v \<in> set rest. v = 0)" by auto
    from Cons.IH [OF this, of "c + 1"] False show ?thesis by simp
  qed
qed

lemma merge_rows_Inr:
  assumes "\<forall>i < length m. (\<exists>v \<in> set (m ! i). v \<noteq> 0) \<longrightarrow> 0 \<le> r + int i \<and> r + int i < int (length arena)"
  shows "\<exists>a'. merge_rows arena px r v m = Inr a' \<and> length a' = length arena"
  using assms
proof (induction m arbitrary: arena r)
  case Nil
  show ?case by simp
next
  case (Cons row m)
  from Cons.prems [rule_format, of 0]
  have "(0 \<le> r \<and> r < int (length arena)) \<or> (\<forall>v \<in> set row. v = 0)" by auto
  from merge_row_Inr [OF this, of px v] obtain a1 where
    a1: "merge_row arena r px v row = Inr a1" "length a1 = length arena" by blast
  have "\<forall>i < length m. (\<exists>v \<in> set (m ! i). v \<noteq> 0) \<longrightarrow>
          0 \<le> (r + 1) + int i \<and> (r + 1) + int i < int (length a1)"
  proof (intro allI impI)
    fix i assume "i < length m" "\<exists>v \<in> set (m ! i). v \<noteq> 0"
    with Cons.prems [rule_format, of "Suc i"] a1(2)
    show "0 \<le> (r + 1) + int i \<and> (r + 1) + int i < int (length a1)" by simp
  qed
  from Cons.IH [OF this] a1 show ?case by simp
qed

lemma not_collide_rows:
  assumes "\<not> collide arena m x y" "i < length m" "\<exists>v \<in> set (m ! i). v \<noteq> 0"
  shows "0 \<le> y + int i \<and> y + int i < int (length arena)"
proof -
  from assms(3) obtain c where c: "c < length (m ! i)" "m ! i ! c \<noteq> 0"
    by (auto simp: in_set_conv_nth)
  with assms(1,2) have "\<not> blocked arena (int i + y) (int c + x)"
    unfolding collide_iff_ex by blast
  then show ?thesis by (simp add: blocked_def add.commute)
qed

lemma merge_not_collide:
  assumes "\<not> collide arena (matrix p) (pos_x p) (pos_y p)"
  shows "\<exists>a'. merge arena p = Inr a' \<and> length a' = length arena"
  unfolding merge_def
  by (rule merge_rows_Inr) (use not_collide_rows [OF assms] in blast)

lemma score_playerReset: "score (playerReset s) = score s"
  by (simp add: playerReset_def gameOver_def getNextFromBag_def fillBag_def Let_def
      split: prod.splits option.splits)

lemma score_arenaSweep: "score (arenaSweep s) = score s"
  by (simp add: arenaSweep_def Let_def)

lemma lockPiece_not_collide:
  assumes "\<not> collides s"
  shows "\<exists>r. lockPiece s = Inr r \<and> score r = score s"
proof -
  from merge_not_collide [OF assms] obtain g where "merge (grid s) (player s) = Inr g" by blast
  then show ?thesis by (simp add: lockPiece_def score_playerReset score_arenaSweep)
qed

lemma hard_drop:
  assumes "has_block (matrix (player s))" and "\<not> collides s"
  shows "\<exists>y' r. pos_y (player s) \<le> y'
     \<and> (\<forall>z. pos_y (player s) \<le> z \<and> z \<le> y' \<longrightarrow>
            \<not> collide (grid s) (matrix (player s)) (pos_x (player s)) z)
     \<and> collide (grid s) (matrix (player s)) (pos_x (player s)) (y' + 1)
     \<and> playerHardDrop s = Some (Inr r)
     \<and> lockPiece (s\<lparr>player := (player s)\<lparr>pos_y := y'\<rparr>,
                     score := score s + 2 * (y' - pos_y (player s))\<rparr>) = Inr r
     \<and> score r = score s + 2 * (y' - pos_y (player s))"
proof -
  let ?m = "matrix (player s)" and ?x = "pos_x (player s)" and ?y = "pos_y (player s)"
  from drop_loop_result [OF assms(1), of ?y "grid s" ?x 0] obtain yc where
    yc: "?y \<le> yc" "drop_loop (grid s) ?m ?x ?y 0 = Some (yc, 0 + (yc - ?y))"
      "collide (grid s) ?m ?x yc" "\<forall>z. ?y \<le> z \<and> z < yc \<longrightarrow> \<not> collide (grid s) ?m ?x z"
    by blast
  from yc(1,3) assms(2) have lt: "?y < yc" by (cases "yc = ?y") auto
  let ?s' = "s\<lparr>player := (player s)\<lparr>pos_y := yc - 1\<rparr>,
                score := score s + 2 * ((yc - 1) - ?y)\<rparr>"
  from yc(4) lt have "\<not> collides ?s'" by simp
  from lockPiece_not_collide [OF this] obtain r where
    r: "lockPiece ?s' = Inr r" "score r = score s + 2 * ((yc - 1) - ?y)" by auto
  have dl: "drop_loop (grid s) ?m ?x ?y 0 = Some (yc, yc - ?y)" using yc(2) by simp
  have e: "max 0 (yc - ?y - 1) * 2 = 2 * ((yc - 1) - ?y)" using lt by simp
  have "playerHardDrop s = Some (lockPiece (s\<lparr>player := (player s)\<lparr>pos_y := yc - 1\<rparr>,
                score := score s + max 0 (yc - ?y - 1) * 2\<rparr>))"
    unfolding playerHardDrop_def Let_def dl by (simp only: option.case prod.case)
  then have "playerHardDrop s = Some (lockPiece ?s')" by (simp only: e)
  moreover have "\<forall>z. ?y \<le> z \<and> z \<le> yc - 1 \<longrightarrow> \<not> collide (grid s) ?m ?x z"
    using yc(4) by simp
  moreover have "collide (grid s) ?m ?x (yc - 1 + 1)" using yc(3) by simp
  moreover have "?y \<le> yc - 1" using lt by simp
  ultimately show ?thesis using r
    by (intro exI [of _ "yc - 1"] exI [of _ r]) (simp only: simp_thms)
qed


lemma drop_loop_empty_board:
  "drop_loop createGrid (shape (TETROMINOS k)) (pos_x (spawn_piece k)) 0 0 = Some (19, 19)"
  by (cases k; hypsubst; code_simp)

lemma rest_on_empty_board:
  "\<not> collide createGrid (shape (TETROMINOS k)) (pos_x (spawn_piece k)) 18"
  by (cases k; hypsubst; code_simp)

lemma hard_drop_empty_board:
  assumes "grid s = createGrid" "player s = spawn_piece k"
  shows "\<exists>r. playerHardDrop s = Some (Inr r) \<and> score r = score s + 36
     \<and> lockPiece (s\<lparr>player := (player s)\<lparr>pos_y := 18\<rparr>, score := score s + 36\<rparr>) = Inr r"
proof -
  let ?s' = "s\<lparr>player := (player s)\<lparr>pos_y := 18\<rparr>, score := score s + 36\<rparr>"
  have m: "matrix (spawn_piece k) = shape (TETROMINOS k)" "pos_y (spawn_piece k) = 0"
    by (simp_all add: spawn_piece_def Let_def)
  have "playerHardDrop s = Some (lockPiece ?s')"
    using drop_loop_empty_board [of k] by (simp add: playerHardDrop_def Let_def assms m)
  moreover have "\<not> collides ?s'" using rest_on_empty_board [of k] by (simp add: assms m)
  from lockPiece_not_collide [OF this] obtain r where "lockPiece ?s' = Inr r" "score r = score s + 36"
    by auto
  ultimately show ?thesis by simp
qed

text \<open>
  Claim C3, as the code has it. From a position that does not collide, \<^verbatim>\<open>playerHardDrop\<close>
  returns: it moves the piece down to the last row \<open>y'\<close> before the first colliding one,
  adds \<open>2 * (y' - y)\<close> to the score, two points for each row the piece went down, and
  locks the piece at once (\<^verbatim>\<open>lockPiece\<close> does not throw there). On the empty board a piece
  at its spawn position, \<open>y = 0\<close>, comes to rest at \<open>y' = ROWS - 2\<close> and the award is
  \<open>2 * (ROWS - 1 - y - 1) = 36\<close>. The piece matrix has an occupied cell, as it has in every
  reachable state (\<open>reachable_has_block\<close> below).
\<close>

theorem hard_drop_lock_and_score:
  assumes "has_block (matrix (player s))" and "\<not> collides s"
  shows "(\<exists>y' r. pos_y (player s) \<le> y'
       \<and> (\<forall>z. pos_y (player s) \<le> z \<and> z \<le> y' \<longrightarrow>
              \<not> collide (grid s) (matrix (player s)) (pos_x (player s)) z)
       \<and> collide (grid s) (matrix (player s)) (pos_x (player s)) (y' + 1)
       \<and> playerHardDrop s = Some (Inr r)
       \<and> lockPiece (s\<lparr>player := (player s)\<lparr>pos_y := y'\<rparr>,
                       score := score s + 2 * (y' - pos_y (player s))\<rparr>) = Inr r
       \<and> score r = score s + 2 * (y' - pos_y (player s)))
   \<and> (grid s = createGrid \<and> player s = spawn_piece k \<longrightarrow>
        (\<exists>r. playerHardDrop s = Some (Inr r)
           \<and> score r = score s + 2 * (int ROWS - 1 - pos_y (player s) - 1)
           \<and> lockPiece (s\<lparr>player := (player s)\<lparr>pos_y := int ROWS - 2\<rparr>,
                           score := score s + 2 * (int ROWS - 1 - pos_y (player s) - 1)\<rparr>) = Inr r))"
proof
  show "\<exists>y' r. pos_y (player s) \<le> y'
       \<and> (\<forall>z. pos_y (player s) \<le> z \<and> z \<le> y' \<longrightarrow>
              \<not> collide (grid s) (matrix (player s)) (pos_x (player s)) z)
       \<and> collide (grid s) (matrix (player s)) (pos_x (player s)) (y' + 1)
       \<and> playerHardDrop s = Some (Inr r)
       \<and> lockPiece (s\<lparr>player := (player s)\<lparr>pos_y := y'\<rparr>,
                       score := score s + 2 * (y' - pos_y (player s))\<rparr>) = Inr r
       \<and> score r = score s + 2 * (y' - pos_y (player s))"
    by (rule hard_drop [OF assms])
next
  show "grid s = createGrid \<and> player s = spawn_piece k \<longrightarrow>
        (\<exists>r. playerHardDrop s = Some (Inr r)
           \<and> score r = score s + 2 * (int ROWS - 1 - pos_y (player s) - 1)
           \<and> lockPiece (s\<lparr>player := (player s)\<lparr>pos_y := int ROWS - 2\<rparr>,
                           score := score s + 2 * (int ROWS - 1 - pos_y (player s) - 1)\<rparr>) = Inr r)"
  proof
    assume a: "grid s = createGrid \<and> player s = spawn_piece k"
    then have "pos_y (player s) = 0" by (simp add: spawn_piece_def Let_def)
    then have e: "2 * (int ROWS - 1 - pos_y (player s) - 1) = 36" "int ROWS - 2 = 18"
      by (simp_all add: ROWS_def)
    from a hard_drop_empty_board [of s k] show "\<exists>r. playerHardDrop s = Some (Inr r)
           \<and> score r = score s + 2 * (int ROWS - 1 - pos_y (player s) - 1)
           \<and> lockPiece (s\<lparr>player := (player s)\<lparr>pos_y := int ROWS - 2\<rparr>,
                           score := score s + 2 * (int ROWS - 1 - pos_y (player s) - 1)\<rparr>) = Inr r"
      unfolding e by blast
  qed
qed

text \<open>The T piece dropped from its spawn position on the empty board.\<close>

theorem hard_drop_lock_and_score_witness:
  "has_block (matrix (player example_game)) \<and> \<not> collides example_game
   \<and> grid example_game = createGrid \<and> player example_game = spawn_piece PieceT
   \<and> (\<exists>r. playerHardDrop example_game = Some (Inr r) \<and> score r = 36)"
proof -
  have h: "has_block (matrix (player example_game))" "\<not> collides example_game" by code_simp+
  have g: "grid example_game = createGrid" "player example_game = spawn_piece PieceT"
    "score example_game = 0" "pos_y (player example_game) = 0"
    by (simp_all add: example_game_def spawn_piece_def Let_def)
  from hard_drop_lock_and_score [OF h, of PieceT] g
  have "\<exists>r. playerHardDrop example_game = Some (Inr r) \<and> score r = 0 + 2 * (int ROWS - 1 - 0 - 1)"
    by auto
  then show ?thesis using h g by (simp add: ROWS_def)
qed

text \<open>
  The award is not \<open>2 * max 0 (rows - 1)\<close> for the \<open>rows\<close> the piece went down: the T
  piece above goes down 18 rows, from \<open>y = 0\<close> to \<open>y = 18\<close>, and the score grows by 36.
\<close>

theorem hard_drop_score_counterexample:
  "\<not> collides example_game \<and> pos_y (player example_game) = 0 \<and> score example_game = 0
   \<and> list_all (\<lambda>z. \<not> collide (grid example_game) (matrix (player example_game))
                      (pos_x (player example_game)) (int z)) [0..<19]
   \<and> collide (grid example_game) (matrix (player example_game)) (pos_x (player example_game)) 19
   \<and> (\<exists>r. playerHardDrop example_game = Some (Inr r) \<and> score r = 36
          \<and> lockPiece (example_game\<lparr>player := (player example_game)\<lparr>pos_y := 18\<rparr>,
                                     score := 36\<rparr>) = Inr r)
   \<and> (36::int) \<noteq> 2 * max 0 ((18 - 0) - 1)"
proof -
  have g: "grid example_game = createGrid" "player example_game = spawn_piece PieceT"
    "score example_game = 0" "pos_y (player example_game) = 0"
    by (simp_all add: example_game_def spawn_piece_def Let_def)
  have nc: "\<not> collides example_game" by code_simp
  have c19: "collide (grid example_game) (matrix (player example_game)) (pos_x (player example_game)) 19"
    by code_simp
  have free: "list_all (\<lambda>z. \<not> collide (grid example_game) (matrix (player example_game))
                 (pos_x (player example_game)) (int z)) [0..<19]"
    by code_simp
  from hard_drop_empty_board [OF g(1,2)] g(3)
  have "\<exists>r. playerHardDrop example_game = Some (Inr r) \<and> score r = 36
          \<and> lockPiece (example_game\<lparr>player := (player example_game)\<lparr>pos_y := 18\<rparr>,
                                     score := 36\<rparr>) = Inr r"
    by simp
  then show ?thesis using nc c19 free g(3,4) by simp
qed

subsection \<open>Grid dimensions\<close>

lemma row_cols_ok_iff:
  "row_cols_ok row x \<longleftrightarrow> (\<forall>j < length row. row ! j \<noteq> 0 \<longrightarrow> 0 \<le> x + int j \<and> x + int j < int COLS)"
  by (auto simp: row_cols_ok_def list_all_iff)

lemma cols_ok_iff:
  "cols_ok m x \<longleftrightarrow>
    (\<forall>i < length m. \<forall>j < length (m ! i). m ! i ! j \<noteq> 0 \<longrightarrow> 0 \<le> x + int j \<and> x + int j < int COLS)"
  by (simp add: cols_ok_def list_all_length row_cols_ok_iff)

lemma grid_ok_update: "grid_ok g \<Longrightarrow> length row = COLS \<Longrightarrow> grid_ok (g[i := row])"
  by (cases "i < length g") (auto simp: grid_ok_def list_all_length nth_list_update)

lemma not_collide_cols_ok:
  assumes "grid_ok arena" "\<not> collide arena m x y"
  shows "cols_ok m x"
  unfolding cols_ok_iff
proof (intro allI impI)
  fix i j assume ij: "i < length m" "j < length (m ! i)" "m ! i ! j \<noteq> 0"
  with assms(2) have "\<not> blocked arena (int i + y) (int j + x)"
    unfolding collide_iff_ex by blast
  with assms(1) show "0 \<le> x + int j \<and> x + int j < int COLS"
    by (simp add: blocked_grid_ok add.commute)
qed

lemma merge_row_grid_ok:
  assumes "grid_ok arena" "row_cols_ok row c"
  shows "case merge_row arena r c v row of Inl (e, g) \<Rightarrow> grid_ok g | Inr g \<Rightarrow> grid_ok g"
  using assms
proof (induction row arbitrary: arena c)
  case Nil
  then show ?case by simp
next
  case (Cons val rest)
  have rest: "row_cols_ok rest (c + 1)"
    unfolding row_cols_ok_iff
  proof (intro allI impI)
    fix j assume "j < length rest" "rest ! j \<noteq> 0"
    with Cons.prems(2) [unfolded row_cols_ok_iff, rule_format, of "Suc j"]
    show "0 \<le> c + 1 + int j \<and> c + 1 + int j < int COLS" by simp
  qed
  show ?case
  proof (cases "val \<noteq> 0 \<and> \<not> (r < 0 \<or> int (length arena) \<le> r)")
    case True
    from Cons.prems(2) True have c: "0 \<le> c" "c < int COLS"
      unfolding row_cols_ok_iff by auto
    from Cons.prems(1) have "length arena = ROWS" by (simp add: grid_ok_def)
    with True Cons.prems(1) have "length (arena ! nat r) = COLS"
      by (intro grid_ok_row) auto
    moreover from c have "nat c < COLS" by linarith
    ultimately have "length (assign_cell (arena ! nat r) c v) = COLS"
      using c by (simp add: assign_cell_def)
    with Cons.prems(1) have "grid_ok (arena[nat r := assign_cell (arena ! nat r) c v])"
      by (rule grid_ok_update)
    from Cons.IH [OF this rest] True show ?thesis by simp
  next
    case False
    with Cons.IH [OF Cons.prems(1) rest] Cons.prems(1) show ?thesis by auto
  qed
qed

lemma merge_rows_grid_ok:
  assumes "grid_ok arena" "cols_ok m px"
  shows "case merge_rows arena px r v m of Inl (e, g) \<Rightarrow> grid_ok g | Inr g \<Rightarrow> grid_ok g"
  using assms
proof (induction m arbitrary: arena r)
  case Nil
  then show ?case by simp
next
  case (Cons row m)
  from Cons.prems(2) have row: "row_cols_ok row px" and m: "cols_ok m px"
    by (simp_all add: cols_ok_def)
  from merge_row_grid_ok [OF Cons.prems(1) row, of r v]
  show ?case
  proof (cases "merge_row arena r px v row")
    case (Inl a)
    with merge_row_grid_ok [OF Cons.prems(1) row, of r v] show ?thesis
      by (cases a) simp
  next
    case (Inr g)
    with merge_row_grid_ok [OF Cons.prems(1) row, of r v] have "grid_ok g" by simp
    from Cons.IH [OF this m, of "r + 1"] Inr show ?thesis by simp
  qed
qed

lemma merge_grid_ok:
  assumes "grid_ok arena" "cols_ok (matrix p) (pos_x p)"
  shows "case merge arena p of Inl (e, g) \<Rightarrow> grid_ok g | Inr g \<Rightarrow> grid_ok g"
  unfolding merge_def by (rule merge_rows_grid_ok [OF assms])


lemma game_invI:
  "grid_ok (grid s) \<Longrightarrow> square (matrix (player s)) \<Longrightarrow> has_block (matrix (player s))
   \<Longrightarrow> cols_ok (matrix (player s)) (pos_x (player s))
   \<Longrightarrow> list_all (\<lambda>y. y < ROWS) (clearingLines s) \<Longrightarrow> game_inv s"
  by (simp add: game_inv_def)

lemma game_inv_cong:
  "game_inv s \<Longrightarrow> grid s' = grid s \<Longrightarrow> matrix (player s') = matrix (player s)
   \<Longrightarrow> pos_x (player s') = pos_x (player s) \<Longrightarrow> clearingLines s' = clearingLines s
   \<Longrightarrow> game_inv s'"
  by (simp add: game_inv_def)

lemma rotate_matrix_has_block:
  assumes "square m" "has_block m"
  shows "has_block (rotate_matrix m dir)"
proof -
  from assms(2) obtain a b where ab: "a < length m" "b < length (m ! a)" "m ! a ! b \<noteq> 0"
    unfolding has_block_iff by blast
  with assms(1) have b: "b < length m" by (simp add: square_nth)
  let ?r = "rotate_matrix m dir"
  have sq: "square ?r" and len: "length ?r = length m"
    using rotate_matrix_square [OF assms(1)] by simp_all
  let ?i = "if dir > 0 then b else length m - Suc b"
  let ?j = "if dir > 0 then length m - Suc a else a"
  from ab(1) b have ij: "?i < length m" "?j < length m" by auto
  have "?r ! ?i ! ?j = m ! a ! b"
    using rotate_matrix_nth [OF assms(1) ij, of dir] ab(1) b by auto
  with ab(3) ij show ?thesis
    unfolding has_block_iff using len square_nth [OF sq, of ?i] by (metis (no_types, lifting))
qed

lemma spawn_piece_ok:
  "square (matrix (spawn_piece k)) \<and> has_block (matrix (spawn_piece k))
   \<and> cols_ok (matrix (spawn_piece k)) (pos_x (spawn_piece k))"
  by (cases k; hypsubst; code_simp)

lemma getNextFromBag_fields:
  "grid (snd (getNextFromBag s)) = grid s \<and> clearingLines (snd (getNextFromBag s)) = clearingLines s
   \<and> player (snd (getNextFromBag s)) = player s \<and> nextPiece (snd (getNextFromBag s)) = nextPiece s"
  by (simp add: getNextFromBag_def fillBag_def Let_def split: prod.splits)

lemma gameOver_fields:
  "grid (gameOver s) = grid s \<and> clearingLines (gameOver s) = clearingLines s
   \<and> player (gameOver s) = player s"
  by (simp add: gameOver_def Let_def)

lemma playerReset_fields:
  "grid (playerReset s) = grid s \<and> clearingLines (playerReset s) = clearingLines s
   \<and> (\<exists>k. player (playerReset s) = spawn_piece k)"
proof -
  obtain k s1 where a: "(case nextPiece s of Some k \<Rightarrow> (k, s) | None \<Rightarrow> getNextFromBag s) = (k, s1)"
    by (cases "case nextPiece s of Some k \<Rightarrow> (k, s) | None \<Rightarrow> getNextFromBag s")
  have s1: "grid s1 = grid s \<and> clearingLines s1 = clearingLines s"
    using a getNextFromBag_fields [of s] by (cases "nextPiece s") auto
  obtain n s3 where b: "getNextFromBag (s1\<lparr>player := spawn_piece k\<rparr>) = (n, s3)"
    by (cases "getNextFromBag (s1\<lparr>player := spawn_piece k\<rparr>)")
  from getNextFromBag_fields [of "s1\<lparr>player := spawn_piece k\<rparr>"] b s1
  have s3: "grid s3 = grid s" "clearingLines s3 = clearingLines s" "player s3 = spawn_piece k"
    by simp_all
  show ?thesis
    unfolding playerReset_def a Let_def prod.case b
    using s3 by (auto simp: gameOver_fields)
qed

lemma playerReset_inv: "grid_ok (grid s) \<Longrightarrow> list_all (\<lambda>y. y < ROWS) (clearingLines s) \<Longrightarrow> game_inv (playerReset s)"
  using playerReset_fields [of s] spawn_piece_ok by (auto simp: game_inv_def)

lemma playerMove_inv: "game_inv s \<Longrightarrow> game_inv (playerMove dir s)"
  by (auto simp: playerMove_def Let_def game_inv_def dest: not_collide_cols_ok)

lemma playerRotate_inv:
  assumes "game_inv s" "dir = 1 \<or> dir = - 1"
  shows "game_inv (playerRotate dir s)"
proof (cases "kick_found dir s")
  case None
  from assms have "square (matrix (player s))" "dir \<noteq> 0" by (auto simp: game_inv_def)
  with None have "playerRotate dir s = s" by (simp add: playerRotate_fail)
  with assms(1) show ?thesis by simp
next
  case (Some xy)
  obtain x' y' where xy: "xy = (x', y')" by (cases xy)
  from assms(1) have g: "grid_ok (grid s)" and sq: "square (matrix (player s))"
    and hb: "has_block (matrix (player s))"
    and cl: "list_all (\<lambda>y. y < ROWS) (clearingLines s)"
    by (simp_all add: game_inv_def)
  from Some xy have "\<not> collide (grid s) (rotate_matrix (matrix (player s)) dir) x' y'"
    by (simp add: kick_found_def Let_def try_kicks_Some)
  with g have c: "cols_ok (rotate_matrix (matrix (player s)) dir) x'"
    by (rule not_collide_cols_ok)
  have p: "player (playerRotate dir s) =
           (player s)\<lparr>pos_x := x', pos_y := y', matrix := rotate_matrix (matrix (player s)) dir,
             rotationIndex := js_rem (rotationIndex (player s) + dir + 4) 4\<rparr>"
    using Some xy by (simp add: playerRotate_success)
  have "clearingLines (playerRotate dir s) = clearingLines s"
    by (simp add: playerRotate_def Let_def split: option.splits)
  with g sq c cl p rotate_matrix_has_block [OF sq hb, of dir] show ?thesis
    by (intro game_invI) (simp_all add: grid_playerRotate rotate_matrix_square)
qed

lemma manualDrop_inv: "game_inv s \<Longrightarrow> game_inv (manualDrop s)"
  by (simp add: manualDrop_def Let_def game_inv_def)

lemma playerDrop_inv: "game_inv s \<Longrightarrow> game_inv (playerDrop s)"
  by (simp add: playerDrop_def Let_def game_inv_def)

lemma arenaSweep_fields:
  "grid (arenaSweep s) = grid s \<and> player (arenaSweep s) = player s
   \<and> list_all (\<lambda>y. y < length (grid s)) (clearingLines (arenaSweep s))"
  by (simp add: arenaSweep_def Let_def list_all_iff)

lemma lockPiece_inv:
  assumes "game_inv s"
  shows "case lockPiece s of Inl (e, s') \<Rightarrow> game_inv s' | Inr s' \<Rightarrow> game_inv s'"
proof -
  from assms have g: "grid_ok (grid s)" and c: "cols_ok (matrix (player s)) (pos_x (player s))"
    by (simp_all add: game_inv_def)
  show ?thesis
  proof (cases "merge (grid s) (player s)")
    case (Inl a)
    obtain e g' where a: "a = (e, g')" by (cases a)
    with merge_grid_ok [OF g c] Inl have "grid_ok g'" by simp
    with assms have "game_inv (s\<lparr>grid := g'\<rparr>)" by (simp add: game_inv_def)
    with Inl a show ?thesis by (simp add: lockPiece_def)
  next
    case (Inr g')
    with merge_grid_ok [OF g c] have g': "grid_ok g'" by simp
    let ?s1 = "(arenaSweep (s\<lparr>grid := g'\<rparr>))\<lparr>canHold := True\<rparr>"
    from arenaSweep_fields [of "s\<lparr>grid := g'\<rparr>"] g'
    have "grid_ok (grid ?s1)" "list_all (\<lambda>y. y < ROWS) (clearingLines ?s1)"
      by (simp_all add: grid_ok_def)
    then have "game_inv (playerReset ?s1)" by (rule playerReset_inv)
    with Inr show ?thesis by (simp add: lockPiece_def)
  qed
qed

lemma playerHardDrop_inv:
  assumes "game_inv s" "playerHardDrop s = Some r"
  shows "case r of Inl (e, s') \<Rightarrow> game_inv s' | Inr s' \<Rightarrow> game_inv s'"
proof -
  from assms(2) obtain y dropped where
    r: "r = lockPiece (s\<lparr>player := (player s)\<lparr>pos_y := y - 1\<rparr>,
                          score := score s + max 0 (dropped - 1) * 2\<rparr>)"
    by (auto simp: playerHardDrop_def Let_def split: option.splits)
  from assms(1) have "game_inv (s\<lparr>player := (player s)\<lparr>pos_y := y - 1\<rparr>,
                          score := score s + max 0 (dropped - 1) * 2\<rparr>)"
    by (simp add: game_inv_def)
  from lockPiece_inv [OF this] r show ?thesis by simp
qed

lemma holdTetromino_inv:
  assumes "game_inv s"
  shows "game_inv (holdTetromino s)"
proof (cases "\<not> canHold s \<or> state s \<noteq> PLAYING")
  case True
  with assms show ?thesis by (simp add: holdTetromino_def)
next
  case False
  from assms have g: "grid_ok (grid s)" "list_all (\<lambda>y. y < ROWS) (clearingLines s)"
    by (simp_all add: game_inv_def)
  show ?thesis
  proof (cases "holdPiece s")
    case None
    from g have "game_inv (playerReset (s\<lparr>holdPiece := Some (tetromino (player s))\<rparr>))"
      by (intro playerReset_inv) simp_all
    then have "game_inv ((playerReset (s\<lparr>holdPiece := Some (tetromino (player s))\<rparr>))\<lparr>canHold := False\<rparr>)"
      by (simp add: game_inv_def)
    with False None show ?thesis by (simp add: holdTetromino_def Let_def)
  next
    case (Some h)
    from g spawn_piece_ok [of h]
    have "game_inv (s\<lparr>holdPiece := Some (tetromino (player s)), player := spawn_piece h, canHold := False\<rparr>)"
      by (simp add: game_inv_def)
    with False Some show ?thesis by (simp add: holdTetromino_def Let_def)
  qed
qed

lemma togglePause_inv: "game_inv s \<Longrightarrow> game_inv (togglePause s)"
  by (simp add: togglePause_def game_inv_def)

lemma clear_row_grid_ok:
  assumes "grid_ok g" "y < ROWS"
  shows "grid_ok (clear_row g y)"
proof -
  from assms have len: "length g = ROWS" and rows: "\<forall>row \<in> set g. length row = COLS"
    by (simp_all add: grid_ok_def list_all_iff)
  have "set (take y g @ drop (Suc y) g) \<subseteq> set g"
    using set_take_subset [of y g] set_drop_subset [of "Suc y" g] by auto
  with rows have "\<forall>row \<in> set (take y g @ drop (Suc y) g). length row = COLS" by blast
  moreover have "length (take y g @ drop (Suc y) g) = ROWS - 1" using len assms(2) by simp
  ultimately show ?thesis using assms(2) by (simp add: grid_ok_def clear_row_def list_all_iff)
qed

lemma foldl_clear_row_grid_ok:
  "grid_ok g \<Longrightarrow> \<forall>y \<in> set ys. y < ROWS \<Longrightarrow> grid_ok (foldl clear_row g ys)"
  by (induction ys arbitrary: g) (simp_all add: clear_row_grid_ok)

lemma completeClear_inv:
  assumes "game_inv s"
  shows "game_inv (completeClear s)"
proof -
  from assms have g: "grid_ok (grid s)" and cl: "\<forall>y \<in> set (rev (sort (clearingLines s))). y < ROWS"
    by (simp_all add: game_inv_def list_all_iff)
  from foldl_clear_row_grid_ok [OF g cl] assms show ?thesis
    by (simp add: completeClear_def Let_def game_inv_def)
qed

lemma update_inv:
  assumes "game_inv s"
  shows "case update t s of Inl (e, s') \<Rightarrow> game_inv s' | Inr s' \<Rightarrow> game_inv s'"
proof -
  let ?s0 = "s\<lparr>lastTime := t\<rparr>"
  from assms have i0: "game_inv ?s0" by (simp add: game_inv_def)
  show ?thesis
  proof (cases "state s = PLAYING")
    case False
    with i0 show ?thesis by (simp add: update_def Let_def)
  next
    case playing: True
    show ?thesis
    proof (cases "isAnimatingClear s")
      case True
      let ?s1 = "?s0\<lparr>clearAnimationFrame := clearAnimationFrame ?s0 + 1\<rparr>"
      from i0 have "game_inv ?s1" by (simp add: game_inv_def)
      with completeClear_inv [of ?s1] playing True show ?thesis
        by (simp add: update_def Let_def)
    next
      case False
      let ?s1 = "?s0\<lparr>dropCounter := dropCounter ?s0 + (t - lastTime s)\<rparr>"
      let ?s2 = "if dropCounter ?s1 > dropInterval ?s1 then playerDrop ?s1 else ?s1"
      let ?s3 = "?s2\<lparr>lockTimer := lockTimer ?s2 + (t - lastTime s)\<rparr>"
      from i0 have "game_inv ?s1" by (simp add: game_inv_def)
      then have i2: "game_inv ?s2" by (simp add: playerDrop_inv)
      then have i3: "game_inv ?s3" by (simp add: game_inv_def)
      have "update t s = (if isLocking ?s2 then
                            (if lockTimer ?s3 \<ge> lockDelay then lockPiece ?s3 else Inr ?s3)
                          else Inr ?s2)"
        using playing False by (simp add: update_def Let_def)
      with i2 i3 lockPiece_inv [OF i3] show ?thesis by (simp split: if_splits)
    qed
  qed
qed

lemma start_inv: "game_inv (start startLevel s)"
proof -
  let ?s1 = "s\<lparr>grid := createGrid, score := 0, lines := 0, level := startLevel,
                dropInterval := getDropInterval startLevel, bag := [], holdPiece := None,
                canHold := True, isAnimatingClear := False, clearingLines := []\<rparr>"
  obtain k s3 where a: "getNextFromBag (fillBag ?s1) = (k, s3)"
    by (cases "getNextFromBag (fillBag ?s1)")
  from getNextFromBag_fields [of "fillBag ?s1"] a
  have "grid s3 = createGrid" "clearingLines s3 = []" by (simp_all add: fillBag_def split: prod.splits)
  then have "game_inv (playerReset (s3\<lparr>nextPiece := Some k\<rparr>))"
    by (intro playerReset_inv) (simp_all add: grid_ok_createGrid)
  then have "game_inv ((playerReset (s3\<lparr>nextPiece := Some k\<rparr>))\<lparr>state := PLAYING\<rparr>)"
    by (simp add: game_inv_def)
  then show ?thesis unfolding start_def Let_def a prod.case .
qed

lemma reset_inv: "game_inv s \<Longrightarrow> game_inv (reset s)"
  by (simp add: reset_def game_inv_def grid_ok_createGrid)

lemma step_inv: "step s s' \<Longrightarrow> game_inv s \<Longrightarrow> game_inv s'"
proof (induction rule: step.induct)
  case (step_hardDrop s s')
  from playerHardDrop_inv [OF step_hardDrop(2,1)] show ?case by simp
next
  case (step_hardDrop_throw s e s')
  from playerHardDrop_inv [OF step_hardDrop_throw(2,1)] show ?case by simp
next
  case (step_update time s s')
  from update_inv [OF step_update(2), of time] step_update(1) show ?case by simp
next
  case (step_update_throw time s e s')
  from update_inv [OF step_update_throw(2), of time] step_update_throw(1) show ?case by simp
qed (simp_all add: start_inv reset_inv playerMove_inv playerRotate_inv manualDrop_inv
      holdTetromino_inv togglePause_inv)

lemma reachable_inv: "reachable s \<Longrightarrow> game_inv s"
  by (induction rule: reachable.induct) (simp_all add: start_inv step_inv)

lemma reachable_has_block: "reachable s \<Longrightarrow> has_block (matrix (player s))"
  using reachable_inv [of s] by (simp add: game_inv_def)


text \<open>
  Claim C10. In every state reachable after \<^verbatim>\<open>start()\<close> the grid has \<open>ROWS = 20\<close> rows of
  \<open>COLS = 10\<close> cells each, and every operation keeps it so: each call from outside (move,
  rotate, soft drop, hard drop, hold, pause, the game loop, start and reset), and inside
  them the gravity drop, the merge on lock, whether it completes or throws, and the row
  removal and top insertion of the deferred line clear.
\<close>

theorem grid_dimensions_invariant:
  assumes "reachable s"
  shows "ROWS = 20 \<and> COLS = 10
     \<and> length (grid s) = ROWS \<and> (\<forall>row \<in> set (grid s). length row = COLS)
     \<and> (\<forall>s'. step s s' \<longrightarrow> length (grid s') = ROWS \<and> (\<forall>row \<in> set (grid s'). length row = COLS))
     \<and> grid_ok (grid (playerDrop s)) \<and> grid_ok (grid (completeClear s))
     \<and> (case merge (grid s) (player s) of Inl (e, g) \<Rightarrow> grid_ok g | Inr g \<Rightarrow> grid_ok g)
     \<and> (case lockPiece s of Inl (e, s') \<Rightarrow> grid_ok (grid s') | Inr s' \<Rightarrow> grid_ok (grid s'))"
proof -
  from assms have i: "game_inv s" by (rule reachable_inv)
  then have g: "grid_ok (grid s)" and c: "cols_ok (matrix (player s)) (pos_x (player s))"
    by (simp_all add: game_inv_def)
  have 1: "length (grid s) = ROWS \<and> (\<forall>row \<in> set (grid s). length row = COLS)"
    using g by (simp add: grid_ok_def list_all_iff)
  have 2: "\<forall>s'. step s s' \<longrightarrow> length (grid s') = ROWS \<and> (\<forall>row \<in> set (grid s'). length row = COLS)"
    using step_inv [OF _ i] by (auto simp: game_inv_def grid_ok_def list_all_iff)
  have 3: "grid_ok (grid (playerDrop s))" "grid_ok (grid (completeClear s))"
    using playerDrop_inv [OF i] completeClear_inv [OF i] by (simp_all add: game_inv_def)
  have 4: "case merge (grid s) (player s) of Inl (e, g) \<Rightarrow> grid_ok g | Inr g \<Rightarrow> grid_ok g"
    by (rule merge_grid_ok [OF g c])
  have 5: "case lockPiece s of Inl (e, s') \<Rightarrow> grid_ok (grid s') | Inr s' \<Rightarrow> grid_ok (grid s')"
    using lockPiece_inv [OF i] by (auto simp: game_inv_def split: sum.splits)
  show ?thesis using 1 2 3 4 5 by (simp add: ROWS_def COLS_def)
qed

text \<open>The game started at level 1, after a move to the right and a soft drop.\<close>

theorem grid_dimensions_invariant_witness:
  "reachable (manualDrop (playerMove 1 (start 1 example_game)))
   \<and> length (grid (manualDrop (playerMove 1 (start 1 example_game)))) = 20
   \<and> list_all (\<lambda>row. length row = 10) (grid (manualDrop (playerMove 1 (start 1 example_game))))"
proof -
  have "reachable (start 1 example_game)" by (rule reachable_start)
  then have "reachable (playerMove 1 (start 1 example_game))"
    by (rule reachable_step) (simp add: step_move)
  then have r: "reachable (manualDrop (playerMove 1 (start 1 example_game)))"
    by (rule reachable_step) (rule step_manualDrop)
  from grid_dimensions_invariant [OF r] r show ?thesis
    by (simp add: ROWS_def COLS_def list_all_iff)
qed

subsection \<open>Lock delay in the game loop\<close>

lemma playerMove_session:
  "state (playerMove dir s) = state s \<and> isAnimatingClear (playerMove dir s) = isAnimatingClear s"
  by (simp add: playerMove_def Let_def)

lemma playerRotate_session:
  "state (playerRotate dir s) = state s \<and> isAnimatingClear (playerRotate dir s) = isAnimatingClear s
   \<and> dropCounter (playerRotate dir s) = dropCounter s \<and> dropInterval (playerRotate dir s) = dropInterval s
   \<and> lastTime (playerRotate dir s) = lastTime s"
  by (simp add: playerRotate_def Let_def split: option.splits)

lemma apply_inputs_session:
  "state (apply_inputs ins s) = state s \<and> isAnimatingClear (apply_inputs ins s) = isAnimatingClear s"
proof (induction ins arbitrary: s)
  case Nil
  show ?case by (simp add: apply_inputs_def)
next
  case (Cons i ins)
  have "state (apply_input i s) = state s \<and> isAnimatingClear (apply_input i s) = isAnimatingClear s"
    by (cases i) (simp_all add: playerMove_session playerRotate_session)
  with Cons.IH [of "apply_input i s"] show ?case by (simp add: apply_inputs_def)
qed

lemma update_gravity_falls:
  assumes "state s = PLAYING" "\<not> isAnimatingClear s"
    and "dropInterval s < dropCounter s + (t - lastTime s)" "\<not> drop_collides s"
  shows "update t s =
    Inr (s\<lparr>lastTime := t, dropCounter := 0,
           player := (player s)\<lparr>pos_y := pos_y (player s) + 1\<rparr>,
           isLocking := False, lockTimer := 0\<rparr>)"
  using assms by (simp add: update_def playerDrop_def Let_def)

lemma lockPiece_outcome:
  "case merge (grid s) (player s) of
     Inr g \<Rightarrow>
       (\<exists>r. lockPiece s = Inr r \<and> grid r = g \<and> \<not> isLocking r \<and> lockTimer r = 0
           \<and> lockMoves r = 0 \<and> (\<exists>k. player r = spawn_piece k))
   | Inl (e, g) \<Rightarrow> lockPiece s = Inl (e, s\<lparr>grid := g\<rparr>)"
proof (cases "merge (grid s) (player s)")
  case (Inl a)
  then show ?thesis by (cases a) (simp add: lockPiece_def)
next
  case (Inr g)
  let ?s1 = "(arenaSweep (s\<lparr>grid := g\<rparr>))\<lparr>canHold := True\<rparr>"
  have "grid ?s1 = g" using arenaSweep_fields [of "s\<lparr>grid := g\<rparr>"] by simp
  with playerReset_fields [of ?s1] playerReset_lock [of ?s1] Inr
  show ?thesis by (simp add: lockPiece_def)
qed

lemma update_locking_cases:
  assumes "state s = PLAYING" "\<not> isAnimatingClear s" "isLocking s"
  shows "(let dt = t - lastTime s;
              fires = (dropInterval s < dropCounter s + dt);
              s'' = s\<lparr>lastTime := t,
                      dropCounter := (if fires then 0 else dropCounter s + dt),
                      lockTimer := lockTimer s + dt\<rparr>
          in if fires \<and> \<not> drop_collides s then
               update t s =
                 Inr (s\<lparr>lastTime := t, dropCounter := 0,
                        player := (player s)\<lparr>pos_y := pos_y (player s) + 1\<rparr>,
                        isLocking := False, lockTimer := 0\<rparr>)
             else if lockDelay \<le> lockTimer s + dt then
               update t s = lockPiece s''
               \<and> (case merge (grid s) (player s) of
                    Inr g \<Rightarrow>
                      (\<exists>r. update t s = Inr r \<and> grid r = g \<and> \<not> isLocking r \<and> lockTimer r = 0
                          \<and> lockMoves r = 0 \<and> (\<exists>k. player r = spawn_piece k))
                  | Inl (e, g) \<Rightarrow> update t s = Inl (e, s''\<lparr>grid := g\<rparr>))
             else update t s = Inr s'')"
proof -
  let ?dt = "t - lastTime s"
  let ?fires = "dropInterval s < dropCounter s + ?dt"
  let ?s'' = "s\<lparr>lastTime := t, dropCounter := (if ?fires then 0 else dropCounter s + ?dt),
                lockTimer := lockTimer s + ?dt\<rparr>"
  show ?thesis
  proof (cases "?fires \<and> \<not> drop_collides s")
    case True
    with update_gravity_falls [OF assms(1,2), of t] show ?thesis by (simp add: Let_def)
  next
    case False
    then have "?fires \<longrightarrow> drop_collides s" by blast
    from update_locking [OF assms this]
    have u: "update t s = (if lockDelay \<le> lockTimer s + ?dt then lockPiece ?s'' else Inr ?s'')"
      by (simp add: Let_def)
    show ?thesis
    proof (cases "lockDelay \<le> lockTimer s + ?dt")
      case notyet: False
      with False u show ?thesis by (auto simp: Let_def)
    next
      case True
      with u have l: "update t s = lockPiece ?s''" by simp
      have "case merge (grid s) (player s) of
                    Inr g \<Rightarrow>
                      (\<exists>r. update t s = Inr r \<and> grid r = g \<and> \<not> isLocking r \<and> lockTimer r = 0
                          \<and> lockMoves r = 0 \<and> (\<exists>k. player r = spawn_piece k))
                  | Inl (e, g) \<Rightarrow> update t s = Inl (e, ?s''\<lparr>grid := g\<rparr>)"
        using lockPiece_outcome [of ?s''] unfolding l by simp
      with l True False show ?thesis by (auto simp: Let_def)
    qed
  qed
qed


lemma due_game_fields:
  "state due_game = PLAYING" "\<not> isAnimatingClear due_game" "isLocking due_game"
  "lockTimer due_game = 200" "lastTime due_game = 0" "dropCounter due_game = 700"
  "dropInterval due_game = 800" "lockMoves due_game = 15" "grid due_game = createGrid"
  by (simp_all add: due_game_def capped_game_def resting_game_def example_game_def
      getDropInterval_def)

lemma due_game_rotated:
  "kick_found 1 due_game = Some (4, 16)"
  "player (playerRotate 1 due_game) =
     \<lparr>pos_x = 4, pos_y = 16, matrix = [[0, 1, 0], [0, 1, 1], [0, 1, 0]],
      tetromino = PieceT, rotationIndex = 1\<rparr>"
  "grid (playerRotate 1 due_game) = createGrid"
proof -
  let ?p0 = "\<lparr>pos_x = 4, pos_y = 18, matrix = [[0, 1, 0], [1, 1, 1], [0, 0, 0]],
      tetromino = PieceT, rotationIndex = 0\<rparr>"
  have p0: "player due_game = ?p0" by code_simp
  have a0: "kick_found 1 (example_game\<lparr>grid := createGrid, player := ?p0\<rparr>) = Some (4, 16)"
    and m0: "rotate_matrix (matrix ?p0) 1 = [[0, 1, 0], [0, 1, 1], [0, 1, 0]]"
    and i0: "js_rem (rotationIndex ?p0 + 1 + 4) 4 = 1" by code_simp+
  note r = rotate_step [OF p0 due_game_fields(9) a0 m0 i0]
  show "kick_found 1 due_game = Some (4, 16)" by (rule r(1))
  show "player (playerRotate 1 due_game) =
     \<lparr>pos_x = 4, pos_y = 16, matrix = [[0, 1, 0], [0, 1, 1], [0, 1, 0]],
      tetromino = PieceT, rotationIndex = 1\<rparr>" using r(2) by simp
  show "grid (playerRotate 1 due_game) = createGrid" by (rule r(3))
qed

lemma due_game_rotated_falls: "\<not> drop_collides (playerRotate 1 due_game)"
proof -
  have "\<not> collide createGrid [[0, 1, 0], [0, 1, 1], [0, 1, 0]] 4 17" by code_simp
  then show ?thesis by (simp add: due_game_rotated(2,3))
qed

lemma due_game_update:
  "\<exists>r. update 300 due_game = Inr r \<and> \<not> isLocking r \<and> lockMoves r = 0
      \<and> (\<exists>k. player r = spawn_piece k)
      \<and> merge (grid due_game) (player due_game) = Inr (grid r)"
proof -
  have dc: "drop_collides due_game" and nc: "\<not> collides due_game" by code_simp+
  from merge_not_collide [OF nc] obtain g where g: "merge (grid due_game) (player due_game) = Inr g"
    by blast
  let ?X = "due_game\<lparr>lastTime := 300, dropCounter := 0, lockTimer := 500\<rparr>"
  from dc have "dropInterval due_game < dropCounter due_game + (300 - lastTime due_game)
      \<longrightarrow> drop_collides due_game" by simp
  from update_locking [OF due_game_fields(1,2,3) this]
  have l: "update 300 due_game = lockPiece ?X"
    by (simp add: Let_def due_game_fields(4-8) lockDelay_def)
  from lockPiece_outcome [of ?X] g
  obtain r where "lockPiece ?X = Inr r" "grid r = g" "\<not> isLocking r"
    "lockMoves r = 0" "\<exists>k. player r = spawn_piece k"
    by auto
  with g l show ?thesis by (intro exI [of _ r]) simp
qed

lemma due_game_rotated_update:
  "update 300 (playerRotate 1 due_game) =
     Inr ((playerRotate 1 due_game)\<lparr>lastTime := 300, dropCounter := 0,
            player := \<lparr>pos_x = 4, pos_y = 17, matrix = [[0, 1, 0], [0, 1, 1], [0, 1, 0]],
                        tetromino = PieceT, rotationIndex = 1\<rparr>,
            isLocking := False, lockTimer := 0\<rparr>)"
proof -
  let ?s = "playerRotate 1 due_game"
  have f: "state ?s = PLAYING" "\<not> isAnimatingClear ?s"
    "dropInterval ?s < dropCounter ?s + (300 - lastTime ?s)"
    by (simp_all add: playerRotate_session due_game_fields)
  from update_gravity_falls [OF f due_game_rotated_falls]
  show ?thesis by (simp add: due_game_rotated(2))
qed

text \<open>
  Claim C5, as the code has it. The cap is 15 and the threshold 500 ms. While lock delay
  is armed and fewer than 15 resets are counted, a successful move or rotation sets the
  lock timer to zero and counts one more. With 15 counted, no run of moves and rotations
  changes the timer, the counter or the locking flag. At the next round of the game loop
  after such a run: when gravity is due and the piece, where the run has left it, can move
  down, it moves down and the locking state is cleared, so the piece is not locked;
  otherwise the elapsed time is added to the timer, and the piece is locked exactly when
  the timer, which the run has not touched, has reached the threshold: it is merged into
  the grid and the next piece is spawned.
\<close>

theorem lock_reset_cap:
  "maxLockMoves = 15 \<and> lockDelay = 500
   \<and> (isLocking s \<and> lockMoves s < maxLockMoves \<and> \<not> move_collides dir s \<longrightarrow>
        lockTimer (playerMove dir s) = 0 \<and> lockMoves (playerMove dir s) = lockMoves s + 1)
   \<and> (isLocking s \<and> lockMoves s < maxLockMoves \<and> kick_found dir s \<noteq> None \<longrightarrow>
        lockTimer (playerRotate dir s) = 0 \<and> lockMoves (playerRotate dir s) = lockMoves s + 1)
   \<and> (maxLockMoves \<le> lockMoves s \<longrightarrow>
        lockTimer (apply_inputs ins s) = lockTimer s \<and> lockMoves (apply_inputs ins s) = lockMoves s
        \<and> isLocking (apply_inputs ins s) = isLocking s)
   \<and> (maxLockMoves \<le> lockMoves s \<and> state s = PLAYING \<and> \<not> isAnimatingClear s \<and> isLocking s \<longrightarrow>
        (let s' = apply_inputs ins s;
             dt = t - lastTime s';
             fires = (dropInterval s' < dropCounter s' + dt);
             s'' = s'\<lparr>lastTime := t,
                      dropCounter := (if fires then 0 else dropCounter s' + dt),
                      lockTimer := lockTimer s + dt\<rparr>
         in if fires \<and> \<not> drop_collides s' then
              update t s' =
                Inr (s'\<lparr>lastTime := t, dropCounter := 0,
                        player := (player s')\<lparr>pos_y := pos_y (player s') + 1\<rparr>,
                        isLocking := False, lockTimer := 0\<rparr>)
            else if lockDelay \<le> lockTimer s + dt then
              update t s' = lockPiece s''
              \<and> (case merge (grid s') (player s') of
                   Inr g \<Rightarrow>
                     (\<exists>r. update t s' = Inr r \<and> grid r = g \<and> \<not> isLocking r \<and> lockTimer r = 0
                         \<and> lockMoves r = 0 \<and> (\<exists>k. player r = spawn_piece k))
                 | Inl (e, g) \<Rightarrow> update t s' = Inl (e, s''\<lparr>grid := g\<rparr>))
            else update t s' = Inr s''))"
proof -
  have 1: "maxLockMoves = 15 \<and> lockDelay = 500" by (simp add: maxLockMoves_def lockDelay_def)
  have 2: "isLocking s \<and> lockMoves s < maxLockMoves \<and> \<not> move_collides dir s \<longrightarrow>
        lockTimer (playerMove dir s) = 0 \<and> lockMoves (playerMove dir s) = lockMoves s + 1"
    using playerMove_lock [where s = s and dir = dir] by simp
  have 3: "isLocking s \<and> lockMoves s < maxLockMoves \<and> kick_found dir s \<noteq> None \<longrightarrow>
        lockTimer (playerRotate dir s) = 0 \<and> lockMoves (playerRotate dir s) = lockMoves s + 1"
    using playerRotate_lock [where s = s and dir = dir] by simp
  have 4: "maxLockMoves \<le> lockMoves s \<longrightarrow>
        lockTimer (apply_inputs ins s) = lockTimer s \<and> lockMoves (apply_inputs ins s) = lockMoves s
        \<and> isLocking (apply_inputs ins s) = isLocking s"
    using apply_inputs_capped [where s = s and ins = ins] by simp
  have 5: "maxLockMoves \<le> lockMoves s \<and> state s = PLAYING \<and> \<not> isAnimatingClear s \<and> isLocking s \<longrightarrow>
        (let s' = apply_inputs ins s;
             dt = t - lastTime s';
             fires = (dropInterval s' < dropCounter s' + dt);
             s'' = s'\<lparr>lastTime := t,
                      dropCounter := (if fires then 0 else dropCounter s' + dt),
                      lockTimer := lockTimer s + dt\<rparr>
         in if fires \<and> \<not> drop_collides s' then
              update t s' =
                Inr (s'\<lparr>lastTime := t, dropCounter := 0,
                        player := (player s')\<lparr>pos_y := pos_y (player s') + 1\<rparr>,
                        isLocking := False, lockTimer := 0\<rparr>)
            else if lockDelay \<le> lockTimer s + dt then
              update t s' = lockPiece s''
              \<and> (case merge (grid s') (player s') of
                   Inr g \<Rightarrow>
                     (\<exists>r. update t s' = Inr r \<and> grid r = g \<and> \<not> isLocking r \<and> lockTimer r = 0
                         \<and> lockMoves r = 0 \<and> (\<exists>k. player r = spawn_piece k))
                 | Inl (e, g) \<Rightarrow> update t s' = Inl (e, s''\<lparr>grid := g\<rparr>))
            else update t s' = Inr s'')"
  proof
    assume a: "maxLockMoves \<le> lockMoves s \<and> state s = PLAYING \<and> \<not> isAnimatingClear s \<and> isLocking s"
    let ?s' = "apply_inputs ins s"
    from a apply_inputs_capped [where s = s and ins = ins]
    have lt: "lockTimer ?s' = lockTimer s" and il: "isLocking ?s'" by simp_all
    from a apply_inputs_session [of ins s]
    have st: "state ?s' = PLAYING" "\<not> isAnimatingClear ?s'" by simp_all
    from update_locking_cases [OF st il, of t]
    show "let s' = apply_inputs ins s;
             dt = t - lastTime s';
             fires = (dropInterval s' < dropCounter s' + dt);
             s'' = s'\<lparr>lastTime := t,
                      dropCounter := (if fires then 0 else dropCounter s' + dt),
                      lockTimer := lockTimer s + dt\<rparr>
         in if fires \<and> \<not> drop_collides s' then
              update t s' =
                Inr (s'\<lparr>lastTime := t, dropCounter := 0,
                        player := (player s')\<lparr>pos_y := pos_y (player s') + 1\<rparr>,
                        isLocking := False, lockTimer := 0\<rparr>)
            else if lockDelay \<le> lockTimer s + dt then
              update t s' = lockPiece s''
              \<and> (case merge (grid s') (player s') of
                   Inr g \<Rightarrow>
                     (\<exists>r. update t s' = Inr r \<and> grid r = g \<and> \<not> isLocking r \<and> lockTimer r = 0
                         \<and> lockMoves r = 0 \<and> (\<exists>k. player r = spawn_piece k))
                 | Inl (e, g) \<Rightarrow> update t s' = Inl (e, s''\<lparr>grid := g\<rparr>))
            else update t s' = Inr s''"
      unfolding Let_def lt .
  qed
  from 1 2 3 4 5 show ?thesis by (intro conjI) blast+
qed


text \<open>
  Instances: the resting T piece under the cap; the capped game, which locks at 300 ms and
  not at 299 ms; and the capped game with gravity due, where a rotation lifts the piece
  and the next round lets it fall.
\<close>

theorem lock_reset_cap_witness:
  "isLocking resting_game \<and> lockMoves resting_game < maxLockMoves
   \<and> \<not> move_collides 1 resting_game \<and> kick_found 1 resting_game \<noteq> None
   \<and> lockTimer (playerMove 1 resting_game) = 0 \<and> lockMoves (playerMove 1 resting_game) = 1
   \<and> lockTimer (playerRotate 1 resting_game) = 0 \<and> lockMoves (playerRotate 1 resting_game) = 1
   \<and> maxLockMoves \<le> lockMoves capped_game \<and> state capped_game = PLAYING
   \<and> \<not> isAnimatingClear capped_game \<and> isLocking capped_game
   \<and> lockTimer (apply_inputs [Move 1, Rotate 1, Move (- 1)] capped_game) = 200
   \<and> lockMoves (apply_inputs [Move 1, Rotate 1, Move (- 1)] capped_game) = 15
   \<and> isLocking (apply_inputs [Move 1, Rotate 1, Move (- 1)] capped_game)
   \<and> update 300 capped_game
       = lockPiece (capped_game\<lparr>lastTime := 300, dropCounter := 300, lockTimer := 500\<rparr>)
   \<and> (\<exists>r. update 300 capped_game = Inr r \<and> \<not> isLocking r \<and> lockMoves r = 0
          \<and> (\<exists>k. player r = spawn_piece k)
          \<and> merge (grid capped_game) (player capped_game) = Inr (grid r))
   \<and> update 299 capped_game
       = Inr (capped_game\<lparr>lastTime := 299, dropCounter := 299, lockTimer := 499\<rparr>)
   \<and> maxLockMoves \<le> lockMoves due_game \<and> state due_game = PLAYING
   \<and> \<not> isAnimatingClear due_game \<and> isLocking due_game
   \<and> update 300 (apply_inputs [Rotate 1] due_game) =
       Inr ((apply_inputs [Rotate 1] due_game)\<lparr>lastTime := 300, dropCounter := 0,
              player := \<lparr>pos_x = 4, pos_y = 17, matrix = [[0, 1, 0], [0, 1, 1], [0, 1, 0]],
                          tetromino = PieceT, rotationIndex = 1\<rparr>,
              isLocking := False, lockTimer := 0\<rparr>)"
proof -
  have h: "isLocking resting_game" "lockMoves resting_game < maxLockMoves"
    "\<not> move_collides 1 resting_game" "kick_found 1 resting_game \<noteq> None"
    by code_simp+
  have h0: "lockMoves resting_game = 0"
    by (simp add: resting_game_def example_game_def)
  have c: "maxLockMoves \<le> lockMoves capped_game" "state capped_game = PLAYING"
    "\<not> isAnimatingClear capped_game" "isLocking capped_game"
    by code_simp+
  have nc: "\<not> collides capped_game" by code_simp
  have v: "lockTimer capped_game = 200" "lastTime capped_game = 0" "dropCounter capped_game = 0"
    "dropInterval capped_game = 800" "lockMoves capped_game = 15"
    by (simp_all add: capped_game_def resting_game_def example_game_def getDropInterval_def)
  have d: "maxLockMoves \<le> lockMoves due_game" "state due_game = PLAYING"
    "\<not> isAnimatingClear due_game" "isLocking due_game"
    by (simp_all add: due_game_fields maxLockMoves_def)
  from merge_not_collide [OF nc] obtain g where
    g: "merge (grid capped_game) (player capped_game) = Inr g" by blast
  note r0 = lock_reset_cap [where s = resting_game and dir = 1 and ins = "[]" and t = 0]
  note c3 = lock_reset_cap [where s = capped_game and dir = 1
      and ins = "[Move 1, Rotate 1, Move (- 1)]" and t = 300]
  note c300 = lock_reset_cap [where s = capped_game and dir = 1 and ins = "[]" and t = 300]
  note c299 = lock_reset_cap [where s = capped_game and dir = 1 and ins = "[]" and t = 299]
  note d300 = lock_reset_cap [where s = due_game and dir = 1 and ins = "[Rotate 1]" and t = 300]
  from r0 h have mv: "lockTimer (playerMove 1 resting_game) = 0"
    "lockMoves (playerMove 1 resting_game) = lockMoves resting_game + 1"
    "lockTimer (playerRotate 1 resting_game) = 0"
    "lockMoves (playerRotate 1 resting_game) = lockMoves resting_game + 1"
    by blast+
  from c3 c(1) have ai:
    "lockTimer (apply_inputs [Move 1, Rotate 1, Move (- 1)] capped_game) = lockTimer capped_game"
    "lockMoves (apply_inputs [Move 1, Rotate 1, Move (- 1)] capped_game) = lockMoves capped_game"
    "isLocking (apply_inputs [Move 1, Rotate 1, Move (- 1)] capped_game) = isLocking capped_game"
    by blast+
  have e: "apply_inputs [] capped_game = capped_game"
    "apply_inputs [Rotate 1] due_game = playerRotate 1 due_game"
    by (simp_all add: apply_inputs_def)
  have hc: "maxLockMoves \<le> lockMoves capped_game \<and> state capped_game = PLAYING
      \<and> \<not> isAnimatingClear capped_game \<and> isLocking capped_game"
    and hd: "maxLockMoves \<le> lockMoves due_game \<and> state due_game = PLAYING
      \<and> \<not> isAnimatingClear due_game \<and> isLocking due_game"
    using c d by simp_all
  note loop = conjunct2 [THEN conjunct2, THEN conjunct2, THEN conjunct2, THEN conjunct2, THEN mp]
  note e300 = loop [OF c300 hc] and e299 = loop [OF c299 hc] and ed = loop [OF d300 hd]
  from e300 have l300: "update 300 capped_game
       = lockPiece (capped_game\<lparr>lastTime := 300, dropCounter := 300, lockTimer := 500\<rparr>)"
    by (simp add: e v g lockDelay_def Let_def)
  from e300 have "\<exists>r. update 300 capped_game = Inr r \<and> grid r = g \<and> \<not> isLocking r
            \<and> lockTimer r = 0 \<and> lockMoves r = 0 \<and> (\<exists>k. player r = spawn_piece k)"
    by (simp add: e v g lockDelay_def Let_def; metis)
  then obtain r where r: "update 300 capped_game = Inr r" "grid r = g" "\<not> isLocking r"
    "lockMoves r = 0" "\<exists>k. player r = spawn_piece k" by blast
  from r g have ex: "\<exists>r. update 300 capped_game = Inr r \<and> \<not> isLocking r \<and> lockMoves r = 0
          \<and> (\<exists>k. player r = spawn_piece k)
          \<and> merge (grid capped_game) (player capped_game) = Inr (grid r)"
    by (intro exI [of _ r]) simp
  from e299 have u299: "update 299 capped_game
       = Inr (capped_game\<lparr>lastTime := 299, dropCounter := 299, lockTimer := 499\<rparr>)"
    by (simp add: e v lockDelay_def Let_def)
  from ed due_game_rotated_falls
  have ud: "update 300 (apply_inputs [Rotate 1] due_game) =
       Inr ((apply_inputs [Rotate 1] due_game)\<lparr>lastTime := 300, dropCounter := 0,
              player := \<lparr>pos_x = 4, pos_y = 17, matrix = [[0, 1, 0], [0, 1, 1], [0, 1, 0]],
                          tetromino = PieceT, rotationIndex = 1\<rparr>,
              isLocking := False, lockTimer := 0\<rparr>)"
    by (simp add: e playerRotate_session due_game_fields due_game_rotated(2) Let_def)
  show ?thesis
    using h c d ex u299 ud l300 by (simp only: mv ai v h0) (simp add: maxLockMoves_def)
qed

text \<open>
  The claim that a move or rotation beyond the cap never postpones locking fails. In
  \<open>due_game\<close> the cap is reached, 200 ms are on the timer and gravity is due. The round of
  the game loop 300 ms later locks the piece. After one more rotation, which succeeds by a
  kick two rows up and leaves the timer at 200 ms, the same round lets the piece fall one
  row and clears the locking state instead: the piece is not locked and the timer starts
  again from zero when it lands.
\<close>

theorem capped_rotation_counterexample:
  "maxLockMoves \<le> lockMoves due_game \<and> isLocking due_game \<and> state due_game = PLAYING
   \<and> \<not> isAnimatingClear due_game \<and> lockTimer due_game = 200
   \<and> (\<exists>r. update 300 due_game = Inr r \<and> \<not> isLocking r \<and> lockMoves r = 0
          \<and> (\<exists>k. player r = spawn_piece k)
          \<and> merge (grid due_game) (player due_game) = Inr (grid r))
   \<and> kick_found 1 due_game = Some (4, 16)
   \<and> lockTimer (playerRotate 1 due_game) = 200 \<and> lockMoves (playerRotate 1 due_game) = 15
   \<and> isLocking (playerRotate 1 due_game)
   \<and> update 300 (playerRotate 1 due_game) =
       Inr ((playerRotate 1 due_game)\<lparr>lastTime := 300, dropCounter := 0,
              player := \<lparr>pos_x = 4, pos_y = 17, matrix = [[0, 1, 0], [0, 1, 1], [0, 1, 0]],
                          tetromino = PieceT, rotationIndex = 1\<rparr>,
              isLocking := False, lockTimer := 0\<rparr>)"
proof -
  have m: "maxLockMoves \<le> lockMoves due_game" by (simp add: due_game_fields maxLockMoves_def)
  from playerRotate_capped [OF m, of 1]
  have "lockTimer (playerRotate 1 due_game) = 200" "lockMoves (playerRotate 1 due_game) = 15"
    "isLocking (playerRotate 1 due_game)"
    by (simp_all add: due_game_fields)
  with m due_game_update due_game_rotated_update due_game_rotated(1) due_game_fields(1-4)
  show ?thesis by (intro conjI) assumption+
qed

end
